theory Spec2Isabelle
  imports Main "HOL-Library.Char_ord" "HOL-Library.List_Lexorder"
begin

section \<open>Identifiers and strings\<close>

text \<open>
  A JavaScript string is modelled as a \<open>string\<close> whose characters are code units below
  256. A MongoDB ObjectId is modelled by its canonical printed form, the 24 lower-case
  hexadecimal digits that \<open>String(id)\<close> returns; \<open>castObjectId\<close> is the cast mongoose
  applies to a string where the schema expects an ObjectId (it accepts both letter
  cases and fails on anything that is not 24 hexadecimal digits).
\<close>

type_synonym objectId = string

definition isHexDigit :: "char \<Rightarrow> bool" where
  "isHexDigit c = (c \<in> set ''0123456789abcdefABCDEF'')"

definition toLowerCase :: "char \<Rightarrow> char" where
  "toLowerCase c =
     (case map_of (zip ''ABCDEFGHIJKLMNOPQRSTUVWXYZ'' ''abcdefghijklmnopqrstuvwxyz'') c of
        Some l \<Rightarrow> l
      | None \<Rightarrow> c)"

definition castObjectId :: "string \<Rightarrow> objectId option" where
  "castObjectId s =
     (if length s = 24 \<and> list_all isHexDigit s then Some (map toLowerCase s) else None)"

text \<open>White space as \<open>String.prototype.trim\<close> and the class \<open>\s\<close> see it (below 256).\<close>

definition isWhiteSpace :: "char \<Rightarrow> bool" where
  "isWhiteSpace c = (c \<in> {CHR 0x09, CHR 0x0A, CHR 0x0B, CHR 0x0C, CHR 0x0D, CHR 0x20, CHR 0xA0})"

definition trim :: "string \<Rightarrow> string" where
  "trim s = rev (dropWhile isWhiteSpace (rev (dropWhile isWhiteSpace s)))"

section \<open>Regular expressions\<close>

text \<open>
  \<open>RegExp.prototype.test\<close> on a freshly evaluated literal (\<open>lastIndex = 0\<close>) answers
  whether some substring of the subject is matched by the pattern. The patterns of the
  message handler use classes, alternation, sequence, \<open>?\<close>, \<open>+\<close> and bounded
  repetition only, so matching is decided with derivatives.
\<close>

datatype regex =
    Never
  | Eps
  | Atom "char \<Rightarrow> bool"
  | Alt regex regex
  | Seq regex regex
  | Star regex

fun nullable :: "regex \<Rightarrow> bool" where
  "nullable Never = False"
| "nullable Eps = True"
| "nullable (Atom p) = False"
| "nullable (Alt r s) = (nullable r \<or> nullable s)"
| "nullable (Seq r s) = (nullable r \<and> nullable s)"
| "nullable (Star r) = True"

fun deriv :: "char \<Rightarrow> regex \<Rightarrow> regex" where
  "deriv c Never = Never"
| "deriv c Eps = Never"
| "deriv c (Atom p) = (if p c then Eps else Never)"
| "deriv c (Alt r s) = Alt (deriv c r) (deriv c s)"
| "deriv c (Seq r s) =
     (if nullable r then Alt (Seq (deriv c r) s) (deriv c s) else Seq (deriv c r) s)"
| "deriv c (Star r) = Seq (deriv c r) (Star r)"

text \<open>\<open>matchPrefix r s\<close>: the pattern matches some prefix of \<open>s\<close>.\<close>

fun matchPrefix :: "regex \<Rightarrow> string \<Rightarrow> bool" where
  "matchPrefix r [] = nullable r"
| "matchPrefix r (c # cs) = (nullable r \<or> matchPrefix (deriv c r) cs)"

text \<open>\<open>regexTest r s\<close>: the pattern matches at some position of \<open>s\<close>.\<close>

fun regexTest :: "regex \<Rightarrow> string \<Rightarrow> bool" where
  "regexTest r [] = nullable r"
| "regexTest r (c # cs) = (matchPrefix r (c # cs) \<or> regexTest r cs)"

definition Opt :: "regex \<Rightarrow> regex" where
  "Opt r = Alt r Eps"

definition Plus :: "regex \<Rightarrow> regex" where
  "Plus r = Seq r (Star r)"

fun Rep :: "nat \<Rightarrow> regex \<Rightarrow> regex" where
  "Rep 0 r = Eps"
| "Rep (Suc n) r = Seq r (Rep n r)"

fun RepUpTo :: "nat \<Rightarrow> regex \<Rightarrow> regex" where
  "RepUpTo 0 r = Eps"
| "RepUpTo (Suc n) r = Opt (Seq r (RepUpTo n r))"

text \<open>\<open>r{m,n}\<close> and \<open>r{m,}\<close>.\<close>

definition RepRange :: "nat \<Rightarrow> nat \<Rightarrow> regex \<Rightarrow> regex" where
  "RepRange m n r = Seq (Rep m r) (RepUpTo (n - m) r)"

definition RepAtLeast :: "nat \<Rightarrow> regex \<Rightarrow> regex" where
  "RepAtLeast m r = Seq (Rep m r) (Star r)"

text \<open>A literal character, and one under the flag \<open>i\<close>.\<close>

definition Chr :: "char \<Rightarrow> regex" where
  "Chr c = Atom (\<lambda>x. x = c)"

definition ChrI :: "char \<Rightarrow> regex" where
  "ChrI c = Atom (\<lambda>x. toLowerCase x = toLowerCase c)"

fun Lit :: "(char \<Rightarrow> regex) \<Rightarrow> string \<Rightarrow> regex" where
  "Lit f [] = Eps"
| "Lit f (c # cs) = Seq (f c) (Lit f cs)"

definition isDigit :: "char \<Rightarrow> bool" where
  "isDigit c = (c \<in> set ''0123456789'')"

definition isLetter :: "char \<Rightarrow> bool" where
  "isLetter c = (toLowerCase c \<in> set ''abcdefghijklmnopqrstuvwxyz'')"

definition NonSpace :: regex where
  "NonSpace = Atom (\<lambda>c. \<not> isWhiteSpace c)"

text \<open>
  \<^verbatim>\<open>/(https?:\/\/[^\s]+|www\.[^\s]+|[^\s]+\.[a-z]{2,})/gi\<close>
\<close>

definition urlPattern :: regex where
  "urlPattern =
     Alt (Alt (Seq (Lit ChrI ''http'') (Seq (Opt (ChrI CHR ''s'')) (Seq (Lit ChrI ''://'') (Plus NonSpace))))
              (Seq (Lit ChrI ''www'') (Seq (Chr CHR ''.'') (Plus NonSpace))))
         (Seq (Plus NonSpace) (Seq (Chr CHR ''.'') (RepAtLeast 2 (Atom isLetter))))"

text \<open>
  \<^verbatim>\<open>/(\+84|0)[0-9]{9,10}|[0-9]{3,4}[-\s]?[0-9]{3,4}[-\s]?[0-9]{3,4}/g\<close>
\<close>

definition phoneSep :: regex where
  "phoneSep = Opt (Atom (\<lambda>c. c = CHR ''-'' \<or> isWhiteSpace c))"

definition phonePattern :: regex where
  "phonePattern =
     Alt (Seq (Alt (Lit Chr ''+84'') (Chr CHR ''0'')) (RepRange 9 10 (Atom isDigit)))
         (Seq (RepRange 3 4 (Atom isDigit))
           (Seq phoneSep
             (Seq (RepRange 3 4 (Atom isDigit))
               (Seq phoneSep (RepRange 3 4 (Atom isDigit))))))"

section \<open>The document store\<close>

text \<open>
  Documents of the collections the chat subsystem reads and writes. \<open>conversations\<close> and
  \<open>messages\<close> are kept in insertion order, the order in which an unsorted query
  returns them. Of users and job posts only the identifiers matter. The schema declares
  no unique index on conversations, so an insert is never refused by the store itself;
  a duplicate-key error can only come from the environment (a database that still
  carries the old unique index \<open>users_1_job_1\<close>) and is injected like any other
  failure.
\<close>

record IConversation =
  conv_id :: objectId
  users :: "objectId list"
  job :: "objectId option"
  lastMessage :: "objectId option"
  lastMessageAt :: "nat option"
  conv_createdAt :: nat

record IMessage =
  msg_id :: objectId
  conversation :: objectId
  sender :: objectId
  content :: string
  isRead :: bool
  readAt :: "nat option"
  msg_createdAt :: nat

record store =
  userDocs :: "objectId list"
  postDocs :: "objectId list"
  conversations :: "IConversation list"
  messages :: "IMessage list"

text \<open>A thrown error: its \<open>code\<close> (set by the database driver) and its \<open>message\<close>.\<close>

datatype exn = Exn (code: "nat option") (message: string)

definition CastError :: exn where
  "CastError = Exn None ''Cast to ObjectId failed''"

definition ValidationError :: exn where
  "ValidationError = Exn None ''Message validation failed''"

definition DocumentNotFoundError :: exn where
  "DocumentNotFoundError = Exn None ''No document found for query''"

text \<open>
  Every store operation takes the failure the environment injects into it (a lost
  connection, a timeout), \<open>None\<close> when the operation runs normally.
\<close>

definition Conversation_findById ::
  "exn option \<Rightarrow> store \<Rightarrow> string \<Rightarrow> exn + IConversation option" where
  "Conversation_findById flt st cid =
     (case flt of
        Some e \<Rightarrow> Inl e
      | None \<Rightarrow>
          (case castObjectId cid of
             None \<Rightarrow> Inl CastError
           | Some i \<Rightarrow> Inr (find (\<lambda>c. conv_id c = i) (conversations st))))"

text \<open>
  \<open>Message.create\<close>: casts the two references, trims the content (schema option
  \<open>trim\<close>), runs the validators \<open>required\<close> and \<open>maxlength\<close>, and inserts.
  The identifier of the new document is generated by the driver and is a parameter.
\<close>

definition Message_create ::
  "exn option \<Rightarrow> store \<Rightarrow> string \<Rightarrow> string \<Rightarrow> string \<Rightarrow> nat \<Rightarrow> objectId
     \<Rightarrow> exn + (IMessage \<times> store)" where
  "Message_create flt st cid uid text now newId =
     (case flt of
        Some e \<Rightarrow> Inl e
      | None \<Rightarrow>
          (case (castObjectId cid, castObjectId uid) of
             (Some c, Some u) \<Rightarrow>
               (if trim text = [] \<or> length (trim text) > 5000 then Inl ValidationError
                else
                  (let m = \<lparr>msg_id = newId, conversation = c, sender = u,
                            content = trim text, isRead = False, readAt = None,
                            msg_createdAt = now\<rparr>
                   in Inr (m, st\<lparr>messages := messages st @ [m]\<rparr>)))
           | _ \<Rightarrow> Inl ValidationError))"

text \<open>
  \<open>conversation.save()\<close> after the handler assigned \<open>lastMessage\<close> and
  \<open>lastMessageAt\<close>: writes the two modified paths of the stored document.
\<close>

definition Conversation_save ::
  "exn option \<Rightarrow> store \<Rightarrow> IConversation \<Rightarrow> exn + store" where
  "Conversation_save flt st conv =
     (case flt of
        Some e \<Rightarrow> Inl e
      | None \<Rightarrow>
          (if conv_id conv \<in> set (map conv_id (conversations st))
           then Inr (st\<lparr>conversations :=
                        map (\<lambda>c. if conv_id c = conv_id conv
                                  then c\<lparr>lastMessage := lastMessage conv,
                                         lastMessageAt := lastMessageAt conv\<rparr>
                                  else c)
                            (conversations st)\<rparr>)
           else Inl DocumentNotFoundError))"

text \<open>
  \<open>Message.updateMany({conversation, sender: {$ne: userId}, isRead: false},
  {isRead: true, readAt: new Date()})\<close>; returns the store and \<open>modifiedCount\<close>.
\<close>

definition unreadFor :: "objectId \<Rightarrow> objectId \<Rightarrow> IMessage \<Rightarrow> bool" where
  "unreadFor c u m = (conversation m = c \<and> sender m \<noteq> u \<and> \<not> isRead m)"

definition Message_updateMany ::
  "exn option \<Rightarrow> store \<Rightarrow> string \<Rightarrow> string \<Rightarrow> nat \<Rightarrow> exn + (store \<times> nat)" where
  "Message_updateMany flt st cid uid now =
     (case flt of
        Some e \<Rightarrow> Inl e
      | None \<Rightarrow>
          (case (castObjectId cid, castObjectId uid) of
             (Some c, Some u) \<Rightarrow>
               Inr (st\<lparr>messages :=
                         map (\<lambda>m. if unreadFor c u m
                                   then m\<lparr>isRead := True, readAt := Some now\<rparr> else m)
                             (messages st)\<rparr>,
                    length (filter (unreadFor c u) (messages st)))
           | _ \<Rightarrow> Inl CastError))"

section \<open>The socket service\<close>

record AuthenticatedSocket =
  socket_id :: string
  userId :: string

record rateLimitData =
  count :: nat
  resetTime :: nat

text \<open>
  The messages of the \<open>error\<close> event, in the order of the source:
  "Message content cannot be empty", "Message content cannot exceed 5000 characters",
  the rate-limit message (too many messages, please wait), the link message (links are
  not allowed), the phone message (phone numbers are not allowed),
  "Conversation not found", "Access denied. You are not part of this conversation",
  "Failed to join conversation", "Failed to send message: " followed by the error's
  message, and "Failed to mark messages as read".
\<close>

datatype error_message =
    ContentEmpty
  | ContentTooLong
  | TooManyMessages
  | LinkNotAllowed
  | PhoneNotAllowed
  | ConversationNotFound
  | AccessDenied
  | FailedToJoin
  | FailedToSend string
  | FailedToMarkRead

datatype event =
    ErrorEvent error_message
  | JoinedConversation string
  | NewMessage IMessage string
  | MessageNotification string IMessage
  | MessagesRead string string

datatype target = ToSocket string | ToRoom string

datatype io_point = AtFindById | AtCreate | AtPopulate | AtSave | AtUpdateMany

record server =
  db :: store
  messageRateLimit :: "string \<rightharpoonup> rateLimitData"
  rooms :: "(string \<times> string) set"
  emitted :: "(target \<times> event) list"

definition emit :: "target \<Rightarrow> event \<Rightarrow> server \<Rightarrow> server" where
  "emit t e s = s\<lparr>emitted := emitted s @ [(t, e)]\<rparr>"

definition socketError :: "AuthenticatedSocket \<Rightarrow> error_message \<Rightarrow> server \<Rightarrow> server" where
  "socketError sock msg s = emit (ToSocket (socket_id sock)) (ErrorEvent msg) s"

definition conversationRoom :: "string \<Rightarrow> string" where
  "conversationRoom cid = ''conversation:'' @ cid"

definition userRoom :: "string \<Rightarrow> string" where
  "userRoom uid = ''user:'' @ uid"

subsection \<open>join_conversation\<close>

definition join_conversation ::
  "AuthenticatedSocket \<Rightarrow> string \<Rightarrow> (io_point \<Rightarrow> exn option) \<Rightarrow> server \<Rightarrow> server" where
  "join_conversation sock conversationId fault s =
     (case Conversation_findById (fault AtFindById) (db s) conversationId of
        Inl e \<Rightarrow> socketError sock FailedToJoin s
      | Inr None \<Rightarrow> socketError sock ConversationNotFound s
      | Inr (Some conv) \<Rightarrow>
          (if userId sock \<notin> set (users conv) then socketError sock AccessDenied s
           else emit (ToSocket (socket_id sock)) (JoinedConversation conversationId)
                  (s\<lparr>rooms := insert (socket_id sock, conversationRoom conversationId)
                                    (rooms s)\<rparr>)))"

subsection \<open>send_message\<close>

text \<open>Rate limiting: \<open>None\<close> when the message is refused, else the updated table.\<close>

definition rateLimit ::
  "(string \<rightharpoonup> rateLimitData) \<Rightarrow> string \<Rightarrow> nat \<Rightarrow> (string \<rightharpoonup> rateLimitData) option" where
  "rateLimit m u now =
     (case m u of
        Some d \<Rightarrow>
          (if now < resetTime d
           then (if count d \<ge> 10 then None else Some (m(u \<mapsto> d\<lparr>count := count d + 1\<rparr>)))
           else Some (m(u \<mapsto> \<lparr>count = 1, resetTime = now + 60000\<rparr>)))
      | None \<Rightarrow> Some (m(u \<mapsto> \<lparr>count = 1, resetTime = now + 60000\<rparr>)))"

text \<open>
  The part of the handler after the content checks, up to the first thrown error:
  the state reached and the error, if one was thrown. The clock is read several times
  in one run of the handler (for the rate limit, for the time stamp of the message and
  for \<open>lastMessageAt\<close>); the one value \<open>now\<close> stands for all of them, which are
  never compared with each other.
\<close>

definition persistAndBroadcast ::
  "AuthenticatedSocket \<Rightarrow> string \<Rightarrow> string \<Rightarrow> nat \<Rightarrow> objectId
     \<Rightarrow> (io_point \<Rightarrow> exn option) \<Rightarrow> server \<Rightarrow> server \<times> exn option" where
  "persistAndBroadcast sock conversationId text now newId fault s =
     (case Conversation_findById (fault AtFindById) (db s) conversationId of
        Inl e \<Rightarrow> (s, Some e)
      | Inr None \<Rightarrow> (socketError sock ConversationNotFound s, None)
      | Inr (Some conv) \<Rightarrow>
          (if userId sock \<notin> set (users conv) then (socketError sock AccessDenied s, None)
           else
             (case Message_create (fault AtCreate) (db s) conversationId (userId sock)
                     (trim text) now newId of
                Inl e \<Rightarrow> (s, Some e)
              | Inr (msg, db1) \<Rightarrow>
                  (case fault AtPopulate of
                     Some e \<Rightarrow> (s\<lparr>db := db1\<rparr>, Some e)
                   | None \<Rightarrow>
                       (case Conversation_save (fault AtSave) db1
                               (conv\<lparr>lastMessage := Some (msg_id msg),
                                     lastMessageAt := Some now\<rparr>) of
                          Inl e \<Rightarrow> (s\<lparr>db := db1\<rparr>, Some e)
                        | Inr db2 \<Rightarrow>
                            (fold (\<lambda>other. emit (ToRoom (userRoom other))
                                              (MessageNotification conversationId msg))
                               (filter (\<lambda>i. i \<noteq> userId sock) (users conv))
                               (emit (ToRoom (conversationRoom conversationId))
                                  (NewMessage msg conversationId)
                                  (s\<lparr>db := db2\<rparr>)),
                             None))))))"

definition send_message ::
  "AuthenticatedSocket \<Rightarrow> string \<Rightarrow> string \<Rightarrow> nat \<Rightarrow> objectId
     \<Rightarrow> (io_point \<Rightarrow> exn option) \<Rightarrow> server \<Rightarrow> server" where
  "send_message sock conversationId text now newId fault s =
     (if text = [] \<or> trim text = [] then socketError sock ContentEmpty s
      else if length text > 5000 then socketError sock ContentTooLong s
      else
        (case rateLimit (messageRateLimit s) (userId sock) now of
           None \<Rightarrow> socketError sock TooManyMessages s
         | Some table \<Rightarrow>
             (let s1 = s\<lparr>messageRateLimit := table\<rparr> in
              if regexTest urlPattern text then socketError sock LinkNotAllowed s1
              else if regexTest phonePattern text then socketError sock PhoneNotAllowed s1
              else
                (case persistAndBroadcast sock conversationId text now newId fault s1 of
                   (s2, Some e) \<Rightarrow> socketError sock (FailedToSend (message e)) s2
                 | (s2, None) \<Rightarrow> s2))))"

subsection \<open>mark_read\<close>

definition mark_read ::
  "AuthenticatedSocket \<Rightarrow> string \<Rightarrow> nat \<Rightarrow> (io_point \<Rightarrow> exn option) \<Rightarrow> server \<Rightarrow> server" where
  "mark_read sock conversationId now fault s =
     (case Conversation_findById (fault AtFindById) (db s) conversationId of
        Inl e \<Rightarrow> socketError sock FailedToMarkRead s
      | Inr None \<Rightarrow> socketError sock ConversationNotFound s
      | Inr (Some conv) \<Rightarrow>
          (if userId sock \<notin> set (users conv) then socketError sock AccessDenied s
           else
             (case Message_updateMany (fault AtUpdateMany) (db s) conversationId
                     (userId sock) now of
                Inl e \<Rightarrow> socketError sock FailedToMarkRead s
              | Inr (db1, n) \<Rightarrow>
                  emit (ToRoom (conversationRoom conversationId))
                    (MessagesRead conversationId (userId sock)) (s\<lparr>db := db1\<rparr>))))"

section \<open>The chat controller\<close>

datatype 'a response = ErrorResponse string nat | SuccessResponse 'a nat

text \<open>
  The outer \<open>catch\<close> of a controller method: status 500 with the error's message, or
  the method's own text when the message is empty.
\<close>

definition internalError :: "string \<Rightarrow> exn \<Rightarrow> 'a response" where
  "internalError fallback e =
     ErrorResponse (if message e = [] then fallback else message e) 500"

subsection \<open>markMessagesAsRead\<close>

definition markMessagesAsRead ::
  "string \<Rightarrow> string \<Rightarrow> nat \<Rightarrow> (io_point \<Rightarrow> exn option) \<Rightarrow> store \<Rightarrow> store \<times> nat response" where
  "markMessagesAsRead currentUser conversationId now fault st =
     (if currentUser = [] then (st, ErrorResponse ''User not authenticated'' 401)
      else
        (case Conversation_findById (fault AtFindById) st conversationId of
           Inl e \<Rightarrow> (st, internalError ''Failed to mark messages as read'' e)
         | Inr None \<Rightarrow> (st, ErrorResponse ''Conversation not found'' 404)
         | Inr (Some conv) \<Rightarrow>
             (if currentUser \<notin> set (users conv)
              then (st, ErrorResponse ''Access denied. You are not part of this conversation'' 403)
              else
                (case Message_updateMany (fault AtUpdateMany) st conversationId currentUser now of
                   Inl e \<Rightarrow> (st, internalError ''Failed to mark messages as read'' e)
                 | Inr (st', n) \<Rightarrow> (st', SuccessResponse n 200)))))"

subsection \<open>getOrCreateConversation: the store operations\<close>

text \<open>
  The request: \<open>req.user?.id\<close> and the body fields \<open>userId\<close> and \<open>jobId\<close>. An
  absent field and the empty string are both falsy and are both modelled by \<open>[]\<close>.
\<close>

record AuthRequest =
  currentUserId :: string
  body_userId :: string
  body_jobId :: string

datatype ctl_point =
    AtFindUser | AtFindJob | AtFind1 | AtFind2 | AtCreateConv | AtPopulateConv
  | AtRetryFindOne | AtRetryFindAll

text \<open>
  One call of the method: the request, the identifier the driver will give a document
  this call creates, the time it stamps on it, and the failures the environment
  injects into its store operations.
\<close>

record call =
  req :: AuthRequest
  freshId :: objectId
  clock :: nat
  faults :: "ctl_point \<Rightarrow> exn option"

definition BSONError :: exn where
  "BSONError = Exn None ''input must be a 24 character hex string, 12 byte Uint8Array, or an integer''"

definition User_findById :: "exn option \<Rightarrow> store \<Rightarrow> string \<Rightarrow> exn + bool" where
  "User_findById flt st uid =
     (case flt of
        Some e \<Rightarrow> Inl e
      | None \<Rightarrow>
          (case castObjectId uid of
             None \<Rightarrow> Inl CastError
           | Some i \<Rightarrow> Inr (i \<in> set (userDocs st))))"

definition Post_findById :: "exn option \<Rightarrow> store \<Rightarrow> string \<Rightarrow> exn + bool" where
  "Post_findById flt st jid =
     (case flt of
        Some e \<Rightarrow> Inl e
      | None \<Rightarrow>
          (case castObjectId jid of
             None \<Rightarrow> Inl CastError
           | Some i \<Rightarrow> Inr (i \<in> set (postDocs st))))"

text \<open>The filter \<open>{users: {$all: userIds}, job: ...}\<close>.\<close>

record query =
  q_users :: "objectId list"
  q_job :: "objectId option"

definition matchesQuery :: "query \<Rightarrow> IConversation \<Rightarrow> bool" where
  "matchesQuery q c = (list_all (\<lambda>u. u \<in> set (users c)) (q_users q) \<and> job c = q_job q)"

definition Conversation_find ::
  "exn option \<Rightarrow> store \<Rightarrow> query \<Rightarrow> exn + IConversation list" where
  "Conversation_find flt st q =
     (case flt of
        Some e \<Rightarrow> Inl e
      | None \<Rightarrow> Inr (filter (matchesQuery q) (conversations st)))"

definition Conversation_findOne ::
  "exn option \<Rightarrow> store \<Rightarrow> query \<Rightarrow> exn + IConversation option" where
  "Conversation_findOne flt st q =
     (case flt of
        Some e \<Rightarrow> Inl e
      | None \<Rightarrow> Inr (find (matchesQuery q) (conversations st)))"

text \<open>
  \<open>Conversation.find({users: {$all: userIds}}).sort({createdAt: -1})\<close>: most recent
  first.
\<close>

definition Conversation_findAllSorted ::
  "exn option \<Rightarrow> store \<Rightarrow> objectId list \<Rightarrow> exn + IConversation list" where
  "Conversation_findAllSorted flt st us =
     (case flt of
        Some e \<Rightarrow> Inl e
      | None \<Rightarrow>
          Inr (rev (sort_key conv_createdAt
                 (filter (\<lambda>c. list_all (\<lambda>u. u \<in> set (users c)) us) (conversations st)))))"

text \<open>\<open>Conversation.findById\<close> given an ObjectId (no cast).\<close>

definition Conversation_findByObjectId ::
  "exn option \<Rightarrow> store \<Rightarrow> objectId \<Rightarrow> exn + IConversation option" where
  "Conversation_findByObjectId flt st i =
     (case flt of
        Some e \<Rightarrow> Inl e
      | None \<Rightarrow> Inr (find (\<lambda>c. conv_id c = i) (conversations st)))"

text \<open>
  \<open>Conversation.create({users, job})\<close>: the schema defaults fill \<open>lastMessage\<close> and
  \<open>lastMessageAt\<close> with null.
\<close>

definition Conversation_create ::
  "exn option \<Rightarrow> store \<Rightarrow> objectId list \<Rightarrow> objectId option \<Rightarrow> nat \<Rightarrow> objectId
     \<Rightarrow> exn + (IConversation \<times> store)" where
  "Conversation_create flt st us j now i =
     (case flt of
        Some e \<Rightarrow> Inl e
      | None \<Rightarrow>
          (let c = \<lparr>conv_id = i, users = us, job = j, lastMessage = None,
                    lastMessageAt = None, conv_createdAt = now\<rparr>
           in Inr (c, st\<lparr>conversations := conversations st @ [c]\<rparr>)))"

text \<open>
  \<open>.populate('users', ...).populate('job', ...).populate({path: 'lastMessage', ...})\<close>
  on a document a query returned: every reference is replaced by the document it names.
  A populated document is represented here by its identifier. A user of the array whose
  document does not exist is dropped from the array; a job post or a last message that
  does not exist becomes null. A query and its populate calls are taken against the
  same store.
\<close>

definition populate :: "store \<Rightarrow> IConversation \<Rightarrow> IConversation" where
  "populate st conv =
     conv\<lparr>users := filter (\<lambda>u. u \<in> set (userDocs st)) (users conv),
          job := (case job conv of
                    None \<Rightarrow> None
                  | Some j \<Rightarrow> if j \<in> set (postDocs st) then Some j else None),
          lastMessage := (case lastMessage conv of
                            None \<Rightarrow> None
                          | Some m \<Rightarrow> if m \<in> set (map msg_id (messages st)) then Some m
                                        else None)\<rparr>"

subsection \<open>getOrCreateConversation: the method\<close>

text \<open>\<open>String.prototype.includes\<close>.\<close>

fun startsWith :: "string \<Rightarrow> string \<Rightarrow> bool" where
  "startsWith s [] = True"
| "startsWith [] (c # cs) = False"
| "startsWith (x # xs) (c # cs) = (x = c \<and> startsWith xs cs)"

fun includesStr :: "string \<Rightarrow> string \<Rightarrow> bool" where
  "includesStr [] sub = (sub = [])"
| "includesStr (x # xs) sub = (startsWith (x # xs) sub \<or> includesStr xs sub)"

definition isDuplicateKeyError :: "exn \<Rightarrow> bool" where
  "isDuplicateKeyError e = (code e = Some 11000 \<or> includesStr (message e) ''duplicate key'')"

text \<open>
  The in-memory filter of the first two lookups, applied to a populated document:
  exactly two users, equal to the pair.
\<close>

definition exactPair :: "objectId list \<Rightarrow> IConversation \<Rightarrow> bool" where
  "exactPair userIds conv =
     (let convUserIds = sort (users conv); targetUserIds = sort userIds
      in length convUserIds = 2 \<and> convUserIds ! 0 = targetUserIds ! 0
         \<and> convUserIds ! 1 = targetUserIds ! 1)"

text \<open>
  The filter of the retry loop, applied to a populated document: the pair as above,
  then the populated job, whose identifier is compared with the request's \<open>jobId\<close> as
  it was sent; a request without \<open>jobId\<close> asks for a populated job that is null.
\<close>

definition exactPairAndJob :: "objectId list \<Rightarrow> string \<Rightarrow> IConversation \<Rightarrow> bool" where
  "exactPairAndJob userIds jobId conv =
     (if \<not> exactPair userIds conv then False
      else if jobId \<noteq> [] then job conv = Some jobId
      else job conv = None)"

text \<open>
  Lines 49 to 65: the sorted pair of ObjectIds and the query. The constructor
  \<open>new ObjectId(...)\<close> throws on a string that is no ObjectId.
\<close>

definition buildQuery :: "AuthRequest \<Rightarrow> exn + query" where
  "buildQuery r =
     (case (castObjectId (currentUserId r), castObjectId (body_userId r)) of
        (Some a, Some b) \<Rightarrow>
          (if body_jobId r \<noteq> []
           then (case castObjectId (body_jobId r) of
                   None \<Rightarrow> Inl BSONError
                 | Some j \<Rightarrow> Inr \<lparr>q_users = sort [a, b], q_job = Some j\<rparr>)
           else Inr \<lparr>q_users = sort [a, b], q_job = None\<rparr>)
      | _ \<Rightarrow> Inl BSONError)"

text \<open>
  The method suspends at every store operation and at the timer of the retry loop, and
  other handlers run in between. A control point names the operation the method is
  about to perform, with the local variables that are live there (the query, the
  document just created, the remaining retries and the current delay).

  The insert and the re-read of the created document share one \<open>try\<close> block: an error
  of the re-read that looks like a duplicate-key error enters the retry branch with
  \<open>conversation\<close> already set, so the loop is skipped and the created document is the
  answer. Every lookup populates what it found, the in-memory filters run on the
  populated documents, and the response carries the populated document. The
  \<open>new_conversation\<close> event sent to the other user after a first creation touches
  neither the store nor the response and is left out.
\<close>

datatype pc =
    FindUser
  | FindJob
  | Find1 query
  | Find2 query
  | Create query
  | Populate IConversation
  | RetrySleep query nat nat
  | RetryFindOne query nat nat
  | RetryFindAll query nat nat
  | Done "IConversation response"

definition failed :: "exn \<Rightarrow> pc" where
  "failed e = Done (internalError ''Failed to get or create conversation'' e)"

text \<open>The synchronous checks before the first store operation.\<close>

definition start :: "call \<Rightarrow> pc" where
  "start c =
     (if currentUserId (req c) = [] then Done (ErrorResponse ''User not authenticated'' 401)
      else if body_userId (req c) = [] then Done (ErrorResponse ''userId is required'' 400)
      else if currentUserId (req c) = body_userId (req c)
      then Done (ErrorResponse ''Cannot create conversation with yourself'' 400)
      else FindUser)"

definition afterValidation :: "call \<Rightarrow> pc" where
  "afterValidation c = (case buildQuery (req c) of Inl e \<Rightarrow> failed e | Inr q \<Rightarrow> Find1 q)"

definition retriesExhausted :: "IConversation response" where
  "retriesExhausted =
     ErrorResponse
       ''Failed to get or create conversation: conversation not found after duplicate key error''
       500"

text \<open>
  One step: the operation at the control point runs against the store as it is now,
  and the method continues to its next suspension or to its response.
\<close>

fun step :: "call \<Rightarrow> store \<Rightarrow> pc \<Rightarrow> store \<times> pc" where
  "step c st FindUser =
     (st, case User_findById (faults c AtFindUser) st (body_userId (req c)) of
            Inl e \<Rightarrow> failed e
          | Inr False \<Rightarrow> Done (ErrorResponse ''User not found'' 404)
          | Inr True \<Rightarrow> if body_jobId (req c) \<noteq> [] then FindJob else afterValidation c)"
| "step c st FindJob =
     (st, case Post_findById (faults c AtFindJob) st (body_jobId (req c)) of
            Inl e \<Rightarrow> failed e
          | Inr False \<Rightarrow> Done (ErrorResponse ''Job not found'' 404)
          | Inr True \<Rightarrow> afterValidation c)"
| "step c st (Find1 q) =
     (st, case Conversation_find (faults c AtFind1) st q of
            Inl e \<Rightarrow> failed e
          | Inr convs \<Rightarrow>
              (case find (exactPair (q_users q)) (map (populate st) convs) of
                 Some conv \<Rightarrow> Done (SuccessResponse conv 200)
               | None \<Rightarrow> Find2 q))"
| "step c st (Find2 q) =
     (st, case Conversation_find (faults c AtFind2) st q of
            Inl e \<Rightarrow> failed e
          | Inr convs \<Rightarrow>
              (case find (exactPair (q_users q)) (map (populate st) convs) of
                 Some conv \<Rightarrow> Done (SuccessResponse conv 200)
               | None \<Rightarrow> Create q))"
| "step c st (Create q) =
     (case Conversation_create (faults c AtCreateConv) st (q_users q) (q_job q) (clock c) (freshId c) of
        Inr (conv, st') \<Rightarrow> (st', Populate conv)
      | Inl e \<Rightarrow> (st, if isDuplicateKeyError e then RetrySleep q 3 500 else failed e))"
| "step c st (Populate conv) =
     (st, case Conversation_findByObjectId (faults c AtPopulateConv) st (conv_id conv) of
            Inl e \<Rightarrow> if isDuplicateKeyError e then Done (SuccessResponse conv 200) else failed e
          | Inr None \<Rightarrow> Done (ErrorResponse ''Failed to get or create conversation'' 500)
          | Inr (Some found) \<Rightarrow> Done (SuccessResponse (populate st found) 200))"
| "step c st (RetrySleep q retries delay) = (st, RetryFindOne q retries delay)"
| "step c st (RetryFindOne q retries delay) =
     (st, case Conversation_findOne (faults c AtRetryFindOne) st q of
            Inl e \<Rightarrow> failed e
          | Inr (Some conv) \<Rightarrow> Done (SuccessResponse (populate st conv) 200)
          | Inr None \<Rightarrow> RetryFindAll q retries delay)"
| "step c st (RetryFindAll q retries delay) =
     (st, case Conversation_findAllSorted (faults c AtRetryFindAll) st (q_users q) of
            Inl e \<Rightarrow> failed e
          | Inr convs \<Rightarrow>
              (case find (exactPairAndJob (q_users q) (body_jobId (req c)))
                      (map (populate st) convs) of
                 Some conv \<Rightarrow> Done (SuccessResponse conv 200)
               | None \<Rightarrow>
                   if retries - 1 > 0 then RetrySleep q (retries - 1) (delay + 500)
                   else Done retriesExhausted))"
| "step c st (Done r) = (st, Done r)"

text \<open>Steps still ahead of a control point, at most.\<close>

fun rank :: "pc \<Rightarrow> nat" where
  "rank (Done r) = 0"
| "rank (Populate conv) = 1"
| "rank (RetryFindAll q retries delay) = 3 * retries + 1"
| "rank (RetryFindOne q retries delay) = 3 * retries + 2"
| "rank (RetrySleep q retries delay) = 3 * retries + 3"
| "rank (Create q) = 13"
| "rank (Find2 q) = 14"
| "rank (Find1 q) = 15"
| "rank FindJob = 16"
| "rank FindUser = 17"

text \<open>
  A run of the method to its response. \<open>env k\<close> is what the other handlers do to the
  store while the method is suspended before its \<open>k\<close>-th operation.
\<close>

function run ::
  "(nat \<Rightarrow> store \<Rightarrow> store) \<Rightarrow> nat \<Rightarrow> call \<Rightarrow> store \<Rightarrow> pc \<Rightarrow> store \<times> IConversation response" where
  "run env k c st p =
     (case p of
        Done r \<Rightarrow> (st, r)
      | _ \<Rightarrow> (case step c (env k st) p of (st', p') \<Rightarrow> run env (Suc k) c st' p'))"
  by pat_completeness auto
termination
proof (relation "measure (\<lambda>(env, k, c, st, p). rank p)")
  show "wf (measure (\<lambda>(env, k, c, st, p). rank p))" by simp
qed (auto simp: failed_def afterValidation_def split: sum.splits option.splits bool.splits if_splits)

text \<open>The method, run with no other handler active.\<close>

definition getOrCreateConversation :: "call \<Rightarrow> store \<Rightarrow> store \<times> IConversation response" where
  "getOrCreateConversation c st = run (\<lambda>k. id) 0 c st (start c)"

text \<open>
  Several calls in flight: the schedule names, step by step, the call that performs its
  next operation.
\<close>

fun interleave :: "nat list \<Rightarrow> call list \<Rightarrow> store \<times> pc list \<Rightarrow> store \<times> pc list" where
  "interleave [] cs (st, ps) = (st, ps)"
| "interleave (i # sched) cs (st, ps) =
     (if i < length cs \<and> i < length ps
      then (case step (cs ! i) st (ps ! i) of
              (st', p') \<Rightarrow> interleave sched cs (st', ps[i := p']))
      else interleave sched cs (st, ps))"

section \<open>Notions used to state the properties\<close>

text \<open>No failure is injected into a socket handler.\<close>

definition noFault :: "io_point \<Rightarrow> exn option" where
  "noFault = (\<lambda>_. None)"

text \<open>
  The membership check of the handlers, as a predicate: the identifier is well formed,
  the conversation exists, and the user is one of its users.
\<close>

definition participant :: "store \<Rightarrow> string \<Rightarrow> string \<Rightarrow> bool" where
  "participant st cid uid =
     (case castObjectId cid of
        None \<Rightarrow> False
      | Some i \<Rightarrow>
          (case find (\<lambda>c. conv_id c = i) (conversations st) of
             None \<Rightarrow> False
           | Some conv \<Rightarrow> uid \<in> set (users conv)))"

text \<open>
  Content that passes the empty and length checks, and content that matches neither
  the link pattern nor the phone pattern.
\<close>

definition wellSized :: "string \<Rightarrow> bool" where
  "wellSized text = (text \<noteq> [] \<and> trim text \<noteq> [] \<and> length text \<le> 5000)"

definition policyClean :: "string \<Rightarrow> bool" where
  "policyClean text = (\<not> regexTest urlPattern text \<and> \<not> regexTest phonePattern text)"

text \<open>
  One \<open>send_message\<close> event: the socket, the payload, the time of the call, the
  identifier the driver gives the new message, and the injected failures. \<open>sends\<close>
  handles a sequence of events one after another.
\<close>

record send_call =
  sc_socket :: AuthenticatedSocket
  sc_conversationId :: string
  sc_content :: string
  sc_now :: nat
  sc_newId :: objectId
  sc_fault :: "io_point \<Rightarrow> exn option"

definition send :: "send_call \<Rightarrow> server \<Rightarrow> server" where
  "send c s = send_message (sc_socket c) (sc_conversationId c) (sc_content c) (sc_now c)
                (sc_newId c) (sc_fault c) s"

fun sends :: "send_call list \<Rightarrow> server \<Rightarrow> server" where
  "sends [] s = s"
| "sends (c # cs) s = sends cs (send c s)"

text \<open>
  A send of user \<open>u\<close> that every check of the handler lets through and that meets no
  failure of the store.
\<close>

definition acceptable :: "store \<Rightarrow> string \<Rightarrow> send_call \<Rightarrow> bool" where
  "acceptable st u c =
     (userId (sc_socket c) = u \<and> wellSized (sc_content c) \<and> policyClean (sc_content c)
      \<and> participant st (sc_conversationId c) u \<and> sc_fault c = noFault)"

text \<open>
  A send of the user at time \<open>t\<close> starts a new window: the table has no entry for the
  user, or the deadline of the entry has passed.
\<close>

definition windowOpensAt :: "server \<Rightarrow> string \<Rightarrow> nat \<Rightarrow> bool" where
  "windowOpensAt s u t =
     (case messageRateLimit s u of None \<Rightarrow> True | Some d \<Rightarrow> resetTime d \<le> t)"

text \<open>
  Sample data: three users, one job post, and one conversation between the first two
  users; a socket per user; the \<open>n\<close>-th send of a user, five seconds after the
  previous one.
\<close>

definition demoA :: objectId where
  "demoA = ''aaaaaaaaaaaaaaaaaaaaaaaa''"

definition demoB :: objectId where
  "demoB = ''bbbbbbbbbbbbbbbbbbbbbbbb''"

definition demoC :: objectId where
  "demoC = ''cccccccccccccccccccccccc''"

definition demoJob :: objectId where
  "demoJob = ''0123456789abcdef01234567''"

definition demoConvId :: objectId where
  "demoConvId = ''111111111111111111111111''"

definition demoConv :: IConversation where
  "demoConv = \<lparr>conv_id = demoConvId, users = [demoA, demoB], job = None,
                lastMessage = None, lastMessageAt = None, conv_createdAt = 0\<rparr>"

definition demoStore :: store where
  "demoStore = \<lparr>userDocs = [demoA, demoB, demoC], postDocs = [demoJob],
                 conversations = [demoConv], messages = []\<rparr>"

definition demoServer :: server where
  "demoServer = \<lparr>db = demoStore, messageRateLimit = Map.empty, rooms = {}, emitted = []\<rparr>"

definition demoSocket :: "objectId \<Rightarrow> AuthenticatedSocket" where
  "demoSocket u = \<lparr>socket_id = ''socket-'' @ u, userId = u\<rparr>"

definition demoMsgId :: "nat \<Rightarrow> objectId" where
  "demoMsgId n = ''2222222222222222222222'' @ [''0123456789'' ! (n div 10), ''0123456789'' ! (n mod 10)]"

definition demoCall :: "objectId \<Rightarrow> string \<Rightarrow> nat \<Rightarrow> send_call" where
  "demoCall u text n = \<lparr>sc_socket = demoSocket u, sc_conversationId = demoConvId,
                         sc_content = text, sc_now = 1000 + 5000 * n, sc_newId = demoMsgId n,
                         sc_fault = noFault\<rparr>"

text \<open>A send that the content policy or the membership check turns down.\<close>

definition refused :: "store \<Rightarrow> send_call \<Rightarrow> bool" where
  "refused st c =
     (regexTest urlPattern (sc_content c) \<or> regexTest phonePattern (sc_content c)
      \<or> \<not> participant st (sc_conversationId c) (userId (sc_socket c)))"

text \<open>A send whose content holds a link.\<close>

definition demoUrlCall :: "nat \<Rightarrow> send_call" where
  "demoUrlCall n = demoCall demoA ''see http://example.com'' n"

text \<open>
  The language of a pattern, against which the matcher is checked: the pattern matches
  the whole of \<open>w\<close>.
\<close>

inductive matches :: "regex \<Rightarrow> string \<Rightarrow> bool" where
  mEps: "matches Eps []"
| mAtom: "p c \<Longrightarrow> matches (Atom p) [c]"
| mAltL: "matches r w \<Longrightarrow> matches (Alt r s) w"
| mAltR: "matches s w \<Longrightarrow> matches (Alt r s) w"
| mSeq: "matches r u \<Longrightarrow> matches s v \<Longrightarrow> matches (Seq r s) (u @ v)"
| mStarNil: "matches (Star r) []"
| mStarStep: "matches r u \<Longrightarrow> matches (Star r) v \<Longrightarrow> matches (Star r) (u @ v)"

text \<open>The events a handler run added to the log.\<close>

definition newEvents :: "server \<Rightarrow> server \<Rightarrow> (target \<times> event) list" where
  "newEvents s s' = drop (length (emitted s)) (emitted s')"

text \<open>An event addressed to a room rather than to one socket.\<close>

definition isBroadcast :: "target \<times> event \<Rightarrow> bool" where
  "isBroadcast te = (case fst te of ToRoom r \<Rightarrow> True | ToSocket i \<Rightarrow> False)"

text \<open>The rate table after the first send of the first user.\<close>

definition demoTable :: "string \<rightharpoonup> rateLimitData" where
  "demoTable = [demoA \<mapsto> \<lparr>count = 1, resetTime = 61000\<rparr>]"

text \<open>A send that passes every check of the handler, whatever the store then does.\<close>

definition admissible :: "store \<Rightarrow> string \<Rightarrow> send_call \<Rightarrow> bool" where
  "admissible st u c =
     (userId (sc_socket c) = u \<and> wellSized (sc_content c) \<and> policyClean (sc_content c)
      \<and> participant st (sc_conversationId c) u)"

text \<open>The store operations of a send, in the order the handler performs them.\<close>

definition persistencePoints :: "io_point list" where
  "persistencePoints = [AtFindById, AtCreate, AtPopulate, AtSave]"

text \<open>A greeting whose insert succeeds and whose conversation cannot be saved.\<close>

definition demoSaveFails :: "io_point \<Rightarrow> exn option" where
  "demoSaveFails p = (if p = AtSave then Some (Exn None ''connection lost'') else None)"

definition demoFailingCall :: send_call where
  "demoFailingCall = (demoCall demoA ''hello'' 0)\<lparr>sc_fault := demoSaveFails\<rparr>"

definition demoHello :: IMessage where
  "demoHello = \<lparr>msg_id = demoMsgId 0, conversation = demoConvId, sender = demoA,
                 content = ''hello'', isRead = False, readAt = None, msg_createdAt = 1000\<rparr>"

text \<open>
  The conversation exists and the user is not among its participants; the identifier
  is well formed and no conversation carries it.
\<close>

definition outsider :: "store \<Rightarrow> string \<Rightarrow> string \<Rightarrow> bool" where
  "outsider st cid uid =
     (case castObjectId cid of
        None \<Rightarrow> False
      | Some i \<Rightarrow>
          (case find (\<lambda>c. conv_id c = i) (conversations st) of
             None \<Rightarrow> False
           | Some conv \<Rightarrow> uid \<notin> set (users conv)))"

definition missing :: "store \<Rightarrow> string \<Rightarrow> bool" where
  "missing st cid =
     (case castObjectId cid of
        None \<Rightarrow> False
      | Some i \<Rightarrow> find (\<lambda>c. conv_id c = i) (conversations st) = None)"

text \<open>
  The rate table after the first send of the third user, and an identifier no
  conversation carries.
\<close>

definition demoTableC :: "string \<rightharpoonup> rateLimitData" where
  "demoTableC = [demoC \<mapsto> \<lparr>count = 1, resetTime = 61000\<rparr>]"

definition demoUnknownConv :: objectId where
  "demoUnknownConv = ''999999999999999999999999''"

text \<open>A conversation identifier that is no ObjectId.\<close>

definition demoMalformed :: string where
  "demoMalformed = ''no-such-id''"

text \<open>What \<open>updateMany\<close> does to one message.\<close>

definition markOne :: "objectId \<Rightarrow> objectId \<Rightarrow> nat \<Rightarrow> IMessage \<Rightarrow> IMessage" where
  "markOne i u now m = (if unreadFor i u m then m\<lparr>isRead := True, readAt := Some now\<rparr> else m)"

text \<open>
  Two messages in the conversation, one from each participant, and one message in
  another conversation; the second participant marks the conversation as read twice.
\<close>

definition demoMessages :: "IMessage list" where
  "demoMessages =
     [\<lparr>msg_id = demoMsgId 1, conversation = demoConvId, sender = demoA, content = ''hi'',
       isRead = False, readAt = None, msg_createdAt = 10\<rparr>,
      \<lparr>msg_id = demoMsgId 2, conversation = demoConvId, sender = demoB, content = ''hello'',
       isRead = False, readAt = None, msg_createdAt = 20\<rparr>,
      \<lparr>msg_id = demoMsgId 3, conversation = demoUnknownConv, sender = demoA, content = ''other'',
       isRead = False, readAt = None, msg_createdAt = 30\<rparr>]"

definition demoChat :: server where
  "demoChat = demoServer\<lparr>db := demoStore\<lparr>messages := demoMessages\<rparr>\<rparr>"

text \<open>No failure is injected into a call of the controller.\<close>

definition noFaults :: "ctl_point \<Rightarrow> exn option" where
  "noFaults = (\<lambda>_. None)"

text \<open>
  The first two lookups of the method, and the two lookups of one retry: the populated
  document each of them answers with, if any.
\<close>

definition lookupExact :: "query \<Rightarrow> store \<Rightarrow> IConversation option" where
  "lookupExact q st =
     find (exactPair (q_users q))
       (map (populate st) (filter (matchesQuery q) (conversations st)))"

definition lookupOne :: "query \<Rightarrow> store \<Rightarrow> IConversation option" where
  "lookupOne q st = map_option (populate st) (find (matchesQuery q) (conversations st))"

definition lookupAll :: "call \<Rightarrow> query \<Rightarrow> store \<Rightarrow> IConversation option" where
  "lookupAll c q st =
     find (exactPairAndJob (q_users q) (body_jobId (req c)))
       (map (populate st)
          (rev (sort_key conv_createdAt
             (filter (\<lambda>x. list_all (\<lambda>u. u \<in> set (users x)) (q_users q))
                (conversations st)))))"

text \<open>The document a call creates for a query.\<close>

definition created :: "call \<Rightarrow> query \<Rightarrow> IConversation" where
  "created c q = \<lparr>conv_id = freshId c, users = q_users q, job = q_job q, lastMessage = None,
                  lastMessageAt = None, conv_createdAt = clock c\<rparr>"

text \<open>The job context a request names, and a job reference the store knows.\<close>

definition jobContext :: "string \<Rightarrow> objectId option" where
  "jobContext j = (if j = [] then None else castObjectId j)"

definition jobOk :: "store \<Rightarrow> string \<Rightarrow> bool" where
  "jobOk st j =
     (j = [] \<or> (case castObjectId j of None \<Rightarrow> False | Some i \<Rightarrow> i \<in> set (postDocs st)))"

text \<open>The query of a request whose two users are \<open>a\<close> and \<open>b\<close>.\<close>

definition pairQuery :: "objectId \<Rightarrow> objectId \<Rightarrow> string \<Rightarrow> query" where
  "pairQuery a b j = \<lparr>q_users = sort [a, b], q_job = jobContext j\<rparr>"

text \<open>
  The store the method sees at its \<open>n\<close>-th operation after the operation \<open>k\<close>, while it
  writes nothing itself, and the first lookup of a series that finds something.
\<close>

fun storeAt :: "(nat \<Rightarrow> store \<Rightarrow> store) \<Rightarrow> nat \<Rightarrow> store \<Rightarrow> nat \<Rightarrow> store" where
  "storeAt env k st 0 = env k st"
| "storeAt env k st (Suc n) = env (k + Suc n) (storeAt env k st n)"

fun firstHit :: "'a option list \<Rightarrow> 'a option" where
  "firstHit [] = None"
| "firstHit (Some x # hs) = Some x"
| "firstHit (None # hs) = firstHit hs"

text \<open>
  The lookups of the retry loop after a duplicate-key error at operation \<open>k\<close>: the timer
  is operation \<open>k + 1\<close>, \<open>findOne\<close> and the broad \<open>find\<close> of the first retry are
  operations \<open>k + 2\<close> and \<open>k + 3\<close>, and so on.
\<close>

definition retryHits ::
  "(nat \<Rightarrow> store \<Rightarrow> store) \<Rightarrow> nat \<Rightarrow> call \<Rightarrow> store \<Rightarrow> query \<Rightarrow> IConversation option list" where
  "retryHits env k c st q =
     [lookupOne q (storeAt env k st 2), lookupAll c q (storeAt env k st 3),
      lookupOne q (storeAt env k st 5), lookupAll c q (storeAt env k st 6),
      lookupOne q (storeAt env k st 8), lookupAll c q (storeAt env k st 9)]"


text \<open>
  The users and the job post a query names exist in a store.
\<close>

definition refsExist :: "query \<Rightarrow> store \<Rightarrow> bool" where
  "refsExist q st =
     (list_all (\<lambda>u. u \<in> set (userDocs st)) (q_users q)
      \<and> (case q_job q of None \<Rightarrow> True | Some j \<Rightarrow> j \<in> set (postDocs st)))"






text \<open>
  A request of the first user for the third; the insert is refused with a duplicate-key
  error, and the conversation another writer created becomes visible during the second
  sleep of the retry loop (operation 7).
\<close>

definition demoRequest :: "string \<Rightarrow> string \<Rightarrow> string \<Rightarrow> nat \<Rightarrow> call" where
  "demoRequest a b j n =
     \<lparr>req = \<lparr>currentUserId = a, body_userId = b, body_jobId = j\<rparr>,
      freshId = ''3333333333333333333333'' @ [''0123456789'' ! (n div 10), ''0123456789'' ! (n mod 10)],
      clock = 1000 + n, faults = noFaults\<rparr>"

definition demoDuplicate :: exn where
  "demoDuplicate =
     Exn (Some 11000) ''E11000 duplicate key error collection: conversations index: users_1_job_1''"

definition demoDupCall :: call where
  "demoDupCall = (demoRequest demoA demoC [] 0)
                   \<lparr>faults := (\<lambda>p. if p = AtCreateConv then Some demoDuplicate else None)\<rparr>"

definition demoRaced :: IConversation where
  "demoRaced = \<lparr>conv_id = ''444444444444444444444444'', users = [demoA, demoC], job = None,
                 lastMessage = None, lastMessageAt = None, conv_createdAt = 999\<rparr>"

definition demoEnv :: "nat \<Rightarrow> store \<Rightarrow> store" where
  "demoEnv n st = (if n = 7 then st\<lparr>conversations := conversations st @ [demoRaced]\<rparr> else st)"

definition demoQuery :: query where
  "demoQuery = pairQuery demoA demoC []"

text \<open>
  The other writer's conversation becomes visible only between the \<open>findOne\<close> and the
  broad \<open>find\<close> of the last retry (operation 12, the ninth after the insert at
  operation 3).
\<close>

definition demoLateEnv :: "nat \<Rightarrow> store \<Rightarrow> store" where
  "demoLateEnv n st = (if n = 12 then st\<lparr>conversations := conversations st @ [demoRaced]\<rparr> else st)"

text \<open>
  The same request about the job post of the sample store, and the other writer's
  conversation for it.
\<close>

definition demoDupJobCall :: call where
  "demoDupJobCall = (demoRequest demoA demoC demoJob 0)
                      \<lparr>faults := (\<lambda>p. if p = AtCreateConv then Some demoDuplicate else None)\<rparr>"

definition demoJobQuery :: query where
  "demoJobQuery = pairQuery demoA demoC demoJob"

definition demoRacedJob :: IConversation where
  "demoRacedJob = demoRaced\<lparr>job := Some demoJob\<rparr>"

definition demoLateJobEnv :: "nat \<Rightarrow> store \<Rightarrow> store" where
  "demoLateJobEnv n st =
     (if n = 13 then st\<lparr>conversations := conversations st @ [demoRacedJob]\<rparr> else st)"

text \<open>
  A store in which the job post has been deleted and a conversation of the first and
  the third user still refers to it.
\<close>

definition demoOrphanStore :: store where
  "demoOrphanStore = demoStore\<lparr>postDocs := [], conversations := [demoConv, demoRacedJob]\<rparr>"

text \<open>The conversation of the first user with itself.\<close>

definition demoSelfConv :: IConversation where
  "demoSelfConv = \<lparr>conv_id = ''333333333333333333333300'', users = [demoA, demoA], job = None,
                    lastMessage = None, lastMessageAt = None, conv_createdAt = 1000\<rparr>"

text \<open>A call of the method with no injected failure.\<close>

definition resolveCall :: "string \<Rightarrow> string \<Rightarrow> string \<Rightarrow> objectId \<Rightarrow> nat \<Rightarrow> call" where
  "resolveCall a b j n t =
     \<lparr>req = \<lparr>currentUserId = a, body_userId = b, body_jobId = j\<rparr>,
      freshId = n, clock = t, faults = noFaults\<rparr>"

text \<open>
  The first user asks for the third, the third for the first, and the first for the
  third about a job.
\<close>

definition demoNewId :: "nat \<Rightarrow> objectId" where
  "demoNewId n = ''55555555555555555555555'' @ [''0123456789'' ! n]"

definition demoNewConv :: "nat \<Rightarrow> objectId option \<Rightarrow> nat \<Rightarrow> IConversation" where
  "demoNewConv n j t = \<lparr>conv_id = demoNewId n, users = [demoA, demoC], job = j,
                         lastMessage = None, lastMessageAt = None, conv_createdAt = t\<rparr>"

text \<open>Two calls of the first user for the third, taking turns at every store operation.\<close>

definition demoSchedule :: "nat list" where
  "demoSchedule = [0, 1, 0, 1, 0, 1, 0, 1, 0, 1]"

definition demoRacers :: "call list" where
  "demoRacers = [resolveCall demoA demoC [] (demoNewId 1) 5, resolveCall demoA demoC [] (demoNewId 2) 6]"

section \<open>Properties of the socket service\<close>

lemma trim_length: "length (trim s) \<le> length s"
proof -
  have "length (dropWhile isWhiteSpace (rev (dropWhile isWhiteSpace s))) \<le> length (rev (dropWhile isWhiteSpace s))"
    by (rule length_dropWhile_le)
  also have "\<dots> \<le> length s" by (simp add: length_dropWhile_le)
  finally show ?thesis by (simp add: trim_def)
qed

lemma dropWhile_rev_dropWhile:
  "dropWhile P (rev (dropWhile P (rev (dropWhile P s)))) = rev (dropWhile P (rev (dropWhile P s)))"
proof (cases "dropWhile P s")
  case Nil
  show ?thesis unfolding Nil by simp
next
  case (Cons x xs)
  then have nx: "\<not> P x" by (metis hd_dropWhile list.sel(1) list.distinct(1))
  have "dropWhile P (rev (x # xs)) = dropWhile P (rev xs @ [x])" by simp
  also have "\<dots> = (if \<forall>y\<in>set (rev xs). P y then dropWhile P [x] else dropWhile P (rev xs) @ [x])"
    by (simp add: dropWhile_append)
  finally obtain ys where ys: "dropWhile P (rev (x # xs)) = ys @ [x]"
    using nx by (auto split: if_splits)
  show ?thesis unfolding Cons ys using nx by simp
qed

lemma trim_idem: "trim (trim s) = trim s"
proof -
  let ?t = "rev (dropWhile isWhiteSpace (rev (dropWhile isWhiteSpace s)))"
  have "dropWhile isWhiteSpace ?t = ?t" by (rule dropWhile_rev_dropWhile)
  then show ?thesis by (simp add: trim_def)
qed

lemma find_map_preserved:
  assumes "\<And>c. P (g c) = P c"
  shows "find P (map g xs) = map_option g (find P xs)"
  using assms by (induction xs) auto

lemma participant_map:
  assumes "\<And>c. conv_id (g c) = conv_id c" and "\<And>c. users (g c) = users c"
    and "conversations st' = map g (conversations st)"
  shows "participant st' cid uid = participant st cid uid"
proof -
  have "find (\<lambda>c. conv_id c = i) (map g (conversations st))
        = map_option g (find (\<lambda>c. conv_id c = i) (conversations st))" for i
    by (rule find_map_preserved) (simp add: assms(1))
  then show ?thesis
    by (auto simp: participant_def assms split: option.splits)
qed

lemma Message_create_ok:
  assumes "castObjectId cid = Some c" and "castObjectId uid = Some u"
    and "trim text \<noteq> []" and "length text \<le> 5000"
  shows "Message_create None st cid uid (trim text) now newId =
           Inr (\<lparr>msg_id = newId, conversation = c, sender = u, content = trim text,
                 isRead = False, readAt = None, msg_createdAt = now\<rparr>,
                st\<lparr>messages := messages st @
                   [\<lparr>msg_id = newId, conversation = c, sender = u, content = trim text,
                     isRead = False, readAt = None, msg_createdAt = now\<rparr>]\<rparr>)"
proof -
  have "length (trim text) \<le> 5000" using trim_length [of "text"] assms(4) by simp
  then show ?thesis using assms by (simp add: Message_create_def trim_idem Let_def)
qed

lemma emitted_fold_db [simp]:
  "db (fold (\<lambda>x. emit (f x) (g x)) xs s) = db s"
  "messageRateLimit (fold (\<lambda>x. emit (f x) (g x)) xs s) = messageRateLimit s"
  "rooms (fold (\<lambda>x. emit (f x) (g x)) xs s) = rooms s"
  by (induction xs arbitrary: s) (simp_all add: emit_def)

lemma emit_fields [simp]:
  "db (emit t e s) = db s"
  "messageRateLimit (emit t e s) = messageRateLimit s"
  "rooms (emit t e s) = rooms s"
  "emitted (emit t e s) = emitted s @ [(t, e)]"
  by (simp_all add: emit_def)

lemma socketError_fields [simp]:
  "db (socketError sock m s) = db s"
  "messageRateLimit (socketError sock m s) = messageRateLimit s"
  "rooms (socketError sock m s) = rooms s"
  "emitted (socketError sock m s) = emitted s @ [(ToSocket (socket_id sock), ErrorEvent m)]"
  by (simp_all add: socketError_def)

lemma persist_accepted:
  assumes "participant (db s) cid (userId sock)"
    and "castObjectId (userId sock) = Some (userId sock)"
    and "trim text \<noteq> []" and "length text \<le> 5000"
  shows "\<exists>s'. persistAndBroadcast sock cid text now newId noFault s = (s', None)
           \<and> messageRateLimit s' = messageRateLimit s
           \<and> rooms s' = rooms s
           \<and> map content (messages (db s')) = map content (messages (db s)) @ [trim text]
           \<and> (\<forall>cid' u'. participant (db s') cid' u' = participant (db s) cid' u')"
proof -
  from assms(1) obtain i conv where i: "castObjectId cid = Some i"
    and conv: "find (\<lambda>c. conv_id c = i) (conversations (db s)) = Some conv"
    and mem: "userId sock \<in> set (users conv)"
    by (auto simp: participant_def split: option.splits)
  have cid: "conv_id conv = i" and inl: "conv \<in> set (conversations (db s))"
    using conv by (auto simp: find_Some_iff)
  have fb: "Conversation_findById None (db s) cid = Inr (Some conv)"
    by (simp add: Conversation_findById_def i conv)
  note mc = Message_create_ok [OF i assms(2) assms(3) assms(4), of "db s" now newId]
  let ?m = "\<lparr>msg_id = newId, conversation = i, sender = userId sock, content = trim text,
                 isRead = False, readAt = None, msg_createdAt = now\<rparr>"
  let ?db1 = "(db s)\<lparr>messages := messages (db s) @ [?m]\<rparr>"
  let ?g = "\<lambda>c. if conv_id c = i then c\<lparr>lastMessage := Some newId, lastMessageAt := Some now\<rparr> else c"
  let ?db2 = "?db1\<lparr>conversations := map ?g (conversations (db s))\<rparr>"
  have sv: "Conversation_save None ?db1 (conv\<lparr>lastMessage := Some newId, lastMessageAt := Some now\<rparr>) = Inr ?db2"
    using inl cid by (auto simp: Conversation_save_def)
  have part: "participant ?db2 cid' u' = participant (db s) cid' u'" for cid' u'
    by (rule participant_map [where g = ?g]) auto
  show ?thesis
    using part by (simp add: persistAndBroadcast_def noFault_def fb mem mc sv)
qed

lemma send_accepted:
  assumes "wellSized text" and "policyClean text"
    and "participant (db s) cid (userId sock)"
    and "castObjectId (userId sock) = Some (userId sock)"
    and "rateLimit (messageRateLimit s) (userId sock) now = Some table"
  shows "messageRateLimit (send_message sock cid text now newId noFault s) = table
       \<and> rooms (send_message sock cid text now newId noFault s) = rooms s
       \<and> map content (messages (db (send_message sock cid text now newId noFault s)))
           = map content (messages (db s)) @ [trim text]
       \<and> (\<forall>cid' u'. participant (db (send_message sock cid text now newId noFault s)) cid' u'
             = participant (db s) cid' u')"
proof -
  let ?s1 = "s\<lparr>messageRateLimit := table\<rparr>"
  have "participant (db ?s1) cid (userId sock)" using assms(3) by simp
  from persist_accepted [OF this assms(4), of "text" now newId] assms(1)
  obtain s' where s': "persistAndBroadcast sock cid text now newId noFault ?s1 = (s', None)"
    "messageRateLimit s' = table" "rooms s' = rooms s"
    "map content (messages (db s')) = map content (messages (db s)) @ [trim text]"
    "\<forall>cid' u'. participant (db s') cid' u' = participant (db s) cid' u'"
    by (auto simp: wellSized_def)
  have "send_message sock cid text now newId noFault s = s'"
    using assms(1,2,5) s'(1) by (simp add: send_message_def wellSized_def policyClean_def)
  then show ?thesis using s' by simp
qed

lemma send_rate_limited:
  assumes "wellSized text" and "rateLimit (messageRateLimit s) (userId sock) now = None"
  shows "send_message sock cid text now newId fault s = socketError sock TooManyMessages s"
  using assms by (simp add: send_message_def wellSized_def)

lemma send_acceptable:
  assumes "acceptable (db s) u c" and "castObjectId u = Some u"
    and "rateLimit (messageRateLimit s) u (sc_now c) = Some table"
  shows "messageRateLimit (send c s) = table
       \<and> map content (messages (db (send c s))) = map content (messages (db s)) @ [trim (sc_content c)]
       \<and> (\<forall>cid' u'. participant (db (send c s)) cid' u' = participant (db s) cid' u')"
  using assms send_accepted [of "sc_content c" s "sc_conversationId c" "sc_socket c" "sc_now c" table "sc_newId c"]
  by (auto simp: acceptable_def send_def)

lemma acceptable_cong:
  "(\<forall>cid' u'. participant st' cid' u' = participant st cid' u') \<Longrightarrow> acceptable st' u c = acceptable st u c"
  by (simp add: acceptable_def)

lemma sends_within_window:
  assumes "castObjectId u = Some u"
    and "messageRateLimit s u = Some \<lparr>count = k, resetTime = R\<rparr>"
    and "k + length cs \<le> 10"
    and "\<forall>c\<in>set cs. acceptable (db s) u c \<and> sc_now c < R"
  shows "messageRateLimit (sends cs s) u = Some \<lparr>count = k + length cs, resetTime = R\<rparr>
       \<and> map content (messages (db (sends cs s)))
           = map content (messages (db s)) @ map (\<lambda>c. trim (sc_content c)) cs
       \<and> (\<forall>cid' u'. participant (db (sends cs s)) cid' u' = participant (db s) cid' u')"
  using assms(2-)
proof (induction cs arbitrary: s k)
  case Nil
  then show ?case by simp
next
  case (Cons c cs)
  have acc: "acceptable (db s) u c" and now: "sc_now c < R" using Cons.prems(3) by auto
  have k: "k < 10" using Cons.prems(2) by simp
  let ?table = "(messageRateLimit s)(u \<mapsto> \<lparr>count = Suc k, resetTime = R\<rparr>)"
  have rl: "rateLimit (messageRateLimit s) u (sc_now c) = Some ?table"
    using Cons.prems(1) now k by (simp add: rateLimit_def)
  note step = send_acceptable [OF acc assms(1) rl]
  have 1: "messageRateLimit (send c s) u = Some \<lparr>count = Suc k, resetTime = R\<rparr>"
    using step by simp
  have 2: "Suc k + length cs \<le> 10" using Cons.prems(2) by simp
  have 3: "\<forall>c'\<in>set cs. acceptable (db (send c s)) u c' \<and> sc_now c' < R"
    using Cons.prems(3) step acceptable_cong [of "db (send c s)" "db s" u] by simp
  from Cons.IH [OF 1 2 3] step show ?case by simp
qed

lemma rateLimit_opens:
  "windowOpensAt s u t \<Longrightarrow>
   rateLimit (messageRateLimit s) u t
     = Some ((messageRateLimit s)(u \<mapsto> \<lparr>count = 1, resetTime = t + 60000\<rparr>))"
  by (auto simp: windowOpensAt_def rateLimit_def split: option.splits)

lemma rateLimit_full:
  "messageRateLimit s u = Some \<lparr>count = 10, resetTime = R\<rparr> \<Longrightarrow> t < R \<Longrightarrow>
   rateLimit (messageRateLimit s) u t = None"
  by (simp add: rateLimit_def)

lemma rateLimit_expired:
  "messageRateLimit s u = Some \<lparr>count = k, resetTime = R\<rparr> \<Longrightarrow> R \<le> t \<Longrightarrow>
   rateLimit (messageRateLimit s) u t
     = Some ((messageRateLimit s)(u \<mapsto> \<lparr>count = 1, resetTime = t + 60000\<rparr>))"
  by (simp add: rateLimit_def)

lemma sends_append: "sends (xs @ ys) s = sends ys (sends xs s)"
  by (induction xs arbitrary: s) auto

text \<open>
  Claim C2. A user's first send opens a window of 60 seconds (no entry in the table, or
  an entry whose deadline has passed). The first ten sends inside the window, each with
  content that passes every check and addressed by a participant to an existing
  conversation, pass the rate limit and are persisted in order, the counter after the
  \<open>n\<close>-th being \<open>n\<close>. An eleventh send inside the window is answered with the
  "too many messages" error and changes nothing else. A send at or after the deadline
  resets the counter to 1 with a new deadline and is persisted.
\<close>

theorem rate_limit_window:
  assumes u: "castObjectId u = Some u"
    and opens: "windowOpensAt s u (sc_now c1)"
    and len: "length cs = 9"
    and acc: "\<forall>c\<in>set (c1 # cs). acceptable (db s) u c"
    and win: "\<forall>c\<in>set cs. sc_now c < sc_now c1 + 60000"
  shows "(\<forall>n. 1 \<le> n \<and> n \<le> 10 \<longrightarrow>
            messageRateLimit (sends (take n (c1 # cs)) s) u
              = Some \<lparr>count = n, resetTime = sc_now c1 + 60000\<rparr>
          \<and> map content (messages (db (sends (take n (c1 # cs)) s)))
              = map content (messages (db s)) @ map (\<lambda>c. trim (sc_content c)) (take n (c1 # cs)))
       \<and> (\<forall>c. userId (sc_socket c) = u \<and> wellSized (sc_content c)
                \<and> sc_now c < sc_now c1 + 60000 \<longrightarrow>
              send c (sends (c1 # cs) s)
                = socketError (sc_socket c) TooManyMessages (sends (c1 # cs) s))
       \<and> (\<forall>c. acceptable (db s) u c \<and> sc_now c1 + 60000 \<le> sc_now c \<longrightarrow>
              messageRateLimit (send c (sends (c1 # cs) s)) u
                = Some \<lparr>count = 1, resetTime = sc_now c + 60000\<rparr>
            \<and> map content (messages (db (send c (sends (c1 # cs) s))))
                = map content (messages (db (sends (c1 # cs) s))) @ [trim (sc_content c)])"
proof -
  let ?R = "sc_now c1 + 60000"
  have a1: "acceptable (db s) u c1" using acc by simp
  note first = send_acceptable [OF a1 u rateLimit_opens [OF opens]]
  have e1: "messageRateLimit (send c1 s) u = Some \<lparr>count = 1, resetTime = ?R\<rparr>"
    using first by simp
  have prefix: "messageRateLimit (sends ds (send c1 s)) u
                  = Some \<lparr>count = 1 + length ds, resetTime = ?R\<rparr>
       \<and> map content (messages (db (sends ds (send c1 s))))
           = map content (messages (db (send c1 s))) @ map (\<lambda>c. trim (sc_content c)) ds
       \<and> (\<forall>cid' u'. participant (db (sends ds (send c1 s))) cid' u'
             = participant (db (send c1 s)) cid' u')"
    if "set ds \<subseteq> set cs" and "length ds \<le> 9" for ds
  proof (rule sends_within_window [OF u e1])
    show "1 + length ds \<le> 10" using that by simp
    show "\<forall>c\<in>set ds. acceptable (db (send c1 s)) u c \<and> sc_now c < ?R"
      using that acc win first acceptable_cong [of "db (send c1 s)" "db s" u] by auto
  qed
  have P1: "messageRateLimit (sends (take n (c1 # cs)) s) u
              = Some \<lparr>count = n, resetTime = ?R\<rparr>
          \<and> map content (messages (db (sends (take n (c1 # cs)) s)))
              = map content (messages (db s)) @ map (\<lambda>c. trim (sc_content c)) (take n (c1 # cs))"
    if "1 \<le> n" and "n \<le> 10" for n
  proof -
    from that(1) obtain m where n: "n = Suc m" by (cases n) auto
    have "set (take m cs) \<subseteq> set cs" by (rule set_take_subset)
    moreover have "length (take m cs) \<le> 9" using len by simp
    ultimately have "messageRateLimit (sends (take m cs) (send c1 s)) u
                  = Some \<lparr>count = 1 + length (take m cs), resetTime = ?R\<rparr>
       \<and> map content (messages (db (sends (take m cs) (send c1 s))))
           = map content (messages (db (send c1 s))) @ map (\<lambda>c. trim (sc_content c)) (take m cs)"
      using prefix by blast
    moreover have "length (take m cs) = m" using that(2) len n by simp
    ultimately show ?thesis using first by (simp add: n)
  qed
  have full: "messageRateLimit (sends (c1 # cs) s) u = Some \<lparr>count = 10, resetTime = ?R\<rparr>"
    using P1 [of 10] len by simp
  have part: "participant (db (sends (c1 # cs) s)) cid' u' = participant (db s) cid' u'" for cid' u'
    using prefix [of cs] len first by simp
  have P2: "send c (sends (c1 # cs) s)
                = socketError (sc_socket c) TooManyMessages (sends (c1 # cs) s)"
    if "userId (sc_socket c) = u" "wellSized (sc_content c)" "sc_now c < ?R" for c
    unfolding send_def
    by (rule send_rate_limited) (use that rateLimit_full [OF full] in auto)
  have P3: "messageRateLimit (send c (sends (c1 # cs) s)) u
                = Some \<lparr>count = 1, resetTime = sc_now c + 60000\<rparr>
            \<and> map content (messages (db (send c (sends (c1 # cs) s))))
                = map content (messages (db (sends (c1 # cs) s))) @ [trim (sc_content c)]"
    if "acceptable (db s) u c" "?R \<le> sc_now c" for c
  proof -
    have "acceptable (db (sends (c1 # cs) s)) u c"
      using that(1) part acceptable_cong [of "db (sends (c1 # cs) s)" "db s" u] by simp
    from send_acceptable [OF this u rateLimit_expired [OF full that(2)]]
    show ?thesis by simp
  qed
  show ?thesis using P1 P2 P3 by blast
qed

lemma demo_ids:
  "castObjectId demoA = Some demoA" "castObjectId demoB = Some demoB"
  "castObjectId demoC = Some demoC" "castObjectId demoConvId = Some demoConvId"
  "castObjectId demoJob = Some demoJob"
  by code_simp+

lemma demo_hello: "wellSized ''hello''" "policyClean ''hello''"
  by code_simp+

lemma demo_participant:
  "participant demoStore demoConvId demoA" "participant demoStore demoConvId demoB"
  "\<not> participant demoStore demoConvId demoC"
  by code_simp+

lemma demo_acceptable: "acceptable demoStore demoA (demoCall demoA ''hello'' n)"
  by (simp add: acceptable_def demoCall_def demoSocket_def demo_hello demo_participant)

text \<open>Ten greetings five seconds apart, an eleventh, and one after the deadline.\<close>

theorem rate_limit_window_witness:
  "castObjectId demoA = Some demoA
   \<and> windowOpensAt demoServer demoA (sc_now (demoCall demoA ''hello'' 0))
   \<and> length (map (demoCall demoA ''hello'') [1..<10]) = 9
   \<and> list_all (acceptable (db demoServer) demoA)
         (demoCall demoA ''hello'' 0 # map (demoCall demoA ''hello'') [1..<10])
   \<and> list_all (\<lambda>c. sc_now c < sc_now (demoCall demoA ''hello'' 0) + 60000)
         (map (demoCall demoA ''hello'') [1..<10])
   \<and> messageRateLimit (sends (map (demoCall demoA ''hello'') [0..<10]) demoServer) demoA
        = Some \<lparr>count = 10, resetTime = 61000\<rparr>
   \<and> map content (messages (db (sends (map (demoCall demoA ''hello'') [0..<10]) demoServer)))
        = replicate 10 ''hello''
   \<and> send (demoCall demoA ''hello'' 10) (sends (map (demoCall demoA ''hello'') [0..<10]) demoServer)
        = socketError (demoSocket demoA) TooManyMessages
            (sends (map (demoCall demoA ''hello'') [0..<10]) demoServer)
   \<and> messageRateLimit (send (demoCall demoA ''hello'' 12)
          (sends (map (demoCall demoA ''hello'') [0..<10]) demoServer)) demoA
        = Some \<lparr>count = 1, resetTime = 121000\<rparr>"
proof -
  let ?c1 = "demoCall demoA ''hello'' 0"
  let ?cs = "map (demoCall demoA ''hello'') [1..<10]"
  have all: "map (demoCall demoA ''hello'') [0..<10] = ?c1 # ?cs"
    by (simp add: upt_conv_Cons)
  have h1: "castObjectId demoA = Some demoA" by (rule demo_ids)
  have h2: "windowOpensAt demoServer demoA (sc_now ?c1)"
    by (simp add: windowOpensAt_def demoServer_def)
  have h3: "length ?cs = 9" by simp
  have h4: "\<forall>c\<in>set (?c1 # ?cs). acceptable (db demoServer) demoA c"
    by (auto simp: demoServer_def demo_acceptable)
  have h5: "\<forall>c\<in>set ?cs. sc_now c < sc_now ?c1 + 60000"
    by (auto simp: demoCall_def)
  note main = rate_limit_window [OF h1 h2 h3 h4 h5]
  have t: "trim ''hello'' = ''hello''" by code_simp
  have c1: "messageRateLimit (sends (?c1 # ?cs) demoServer) demoA
              = Some \<lparr>count = 10, resetTime = 61000\<rparr>
          \<and> map content (messages (db (sends (?c1 # ?cs) demoServer))) = replicate 10 ''hello''"
  proof -
    have "take 10 (?c1 # ?cs) = ?c1 # ?cs" by simp
    moreover have "map (\<lambda>c. trim (sc_content c)) (map (demoCall demoA ''hello'') [0..<10])
                     = replicate 10 ''hello''"
      by (simp add: demoCall_def t map_replicate_const o_def)
    then have "map (\<lambda>c. trim (sc_content c)) (?c1 # ?cs) = replicate 10 ''hello''"
      by (simp only: all)
    moreover have "messages (db demoServer) = []" by (simp add: demoServer_def demoStore_def)
    moreover have "sc_now ?c1 + 60000 = 61000" by (simp add: demoCall_def)
    ultimately show ?thesis using main [THEN conjunct1, rule_format, of 10] by simp
  qed
  have c2: "send (demoCall demoA ''hello'' 10) (sends (?c1 # ?cs) demoServer)
        = socketError (demoSocket demoA) TooManyMessages (sends (?c1 # ?cs) demoServer)"
    using main [THEN conjunct2, THEN conjunct1, rule_format, of "demoCall demoA ''hello'' 10"]
    by (simp add: demoCall_def demoSocket_def demo_hello)
  have c3: "messageRateLimit (send (demoCall demoA ''hello'' 12) (sends (?c1 # ?cs) demoServer)) demoA
        = Some \<lparr>count = 1, resetTime = 121000\<rparr>"
    using main [THEN conjunct2, THEN conjunct2, rule_format, of "demoCall demoA ''hello'' 12"]
      demo_acceptable [of 12]
    by (simp add: demoCall_def demoServer_def)
  show ?thesis unfolding all list_all_iff using h1 h2 h3 h4 h5 c1 c2 c3 by blast
qed

lemma persist_nonparticipant:
  assumes "\<not> participant (db s) cid (userId sock)"
  shows "(\<exists>e. persistAndBroadcast sock cid text now newId fault s = (s, Some e))
           \<or> (\<exists>m. persistAndBroadcast sock cid text now newId fault s = (socketError sock m s, None))"
  using assms
  by (auto simp: persistAndBroadcast_def participant_def Conversation_findById_def
           split: option.splits)

lemma send_refused:
  assumes "wellSized (sc_content c)" and "refused (db s) c"
    and "rateLimit (messageRateLimit s) (userId (sc_socket c)) (sc_now c) = Some table"
  shows "\<exists>m. send c s = socketError (sc_socket c) m (s\<lparr>messageRateLimit := table\<rparr>)"
proof (cases "regexTest urlPattern (sc_content c) \<or> regexTest phonePattern (sc_content c)")
  case True
  then show ?thesis using assms(1,3)
    by (auto simp: send_def send_message_def wellSized_def Let_def)
next
  case False
  then have "\<not> participant (db (s\<lparr>messageRateLimit := table\<rparr>)) (sc_conversationId c) (userId (sc_socket c))"
    using assms(2) by (simp add: refused_def)
  from persist_nonparticipant [OF this, of "sc_content c" "sc_now c" "sc_newId c" "sc_fault c"]
  show ?thesis using False assms(1,3)
    by (auto simp: send_def send_message_def wellSized_def Let_def)
qed

lemma sends_refused:
  assumes "messageRateLimit s u = Some \<lparr>count = k, resetTime = R\<rparr>"
    and "k + length cs \<le> 10"
    and "\<forall>c\<in>set cs. userId (sc_socket c) = u \<and> wellSized (sc_content c) \<and> refused (db s) c
            \<and> sc_now c < R"
  shows "messageRateLimit (sends cs s) u = Some \<lparr>count = k + length cs, resetTime = R\<rparr>
       \<and> db (sends cs s) = db s \<and> rooms (sends cs s) = rooms s"
  using assms
proof (induction cs arbitrary: s k)
  case Nil
  then show ?case by simp
next
  case (Cons c cs)
  have c: "userId (sc_socket c) = u" "wellSized (sc_content c)" "refused (db s) c" "sc_now c < R"
    using Cons.prems(3) by auto
  have k: "k < 10" using Cons.prems(2) by simp
  let ?table = "(messageRateLimit s)(u \<mapsto> \<lparr>count = Suc k, resetTime = R\<rparr>)"
  have rl: "rateLimit (messageRateLimit s) (userId (sc_socket c)) (sc_now c) = Some ?table"
    using Cons.prems(1) c(1,4) k by (simp add: rateLimit_def)
  from send_refused [OF c(2) c(3) rl] obtain m
    where step: "send c s = socketError (sc_socket c) m (s\<lparr>messageRateLimit := ?table\<rparr>)" ..
  have 1: "messageRateLimit (send c s) u = Some \<lparr>count = Suc k, resetTime = R\<rparr>"
    by (simp add: step)
  have 2: "Suc k + length cs \<le> 10" using Cons.prems(2) by simp
  have 3: "\<forall>c'\<in>set cs. userId (sc_socket c') = u \<and> wellSized (sc_content c')
            \<and> refused (db (send c s)) c' \<and> sc_now c' < R"
    using Cons.prems(3) by (simp add: step)
  from Cons.IH [OF 1 2 3] show ?case by (simp add: step)
qed

text \<open>
  Claim C10. The counter is advanced before the content policy and the membership check
  run. Ten sends inside one window that pass the empty and length checks and are then
  refused (a link, a phone number, or a sender who is no participant of an existing
  conversation) leave the store as it was and bring the counter to 10; an eleventh send
  inside the window, whatever its content, is answered with the rate-limit error, so
  that no message at all has been persisted.
\<close>

theorem rejected_sends_consume_quota:
  assumes opens: "windowOpensAt s u (sc_now c1)"
    and len: "length cs = 9"
    and rej: "\<forall>c\<in>set (c1 # cs). userId (sc_socket c) = u \<and> wellSized (sc_content c)
                 \<and> refused (db s) c"
    and win: "\<forall>c\<in>set cs. sc_now c < sc_now c1 + 60000"
  shows "db (sends (c1 # cs) s) = db s
       \<and> messageRateLimit (sends (c1 # cs) s) u
           = Some \<lparr>count = 10, resetTime = sc_now c1 + 60000\<rparr>
       \<and> (\<forall>c. userId (sc_socket c) = u \<and> wellSized (sc_content c)
                \<and> sc_now c < sc_now c1 + 60000 \<longrightarrow>
              send c (sends (c1 # cs) s)
                = socketError (sc_socket c) TooManyMessages (sends (c1 # cs) s)
              \<and> db (send c (sends (c1 # cs) s)) = db s)"
proof -
  let ?R = "sc_now c1 + 60000"
  have c1: "userId (sc_socket c1) = u" "wellSized (sc_content c1)" "refused (db s) c1"
    using rej by auto
  have rl: "rateLimit (messageRateLimit s) (userId (sc_socket c1)) (sc_now c1)
              = Some ((messageRateLimit s)(u \<mapsto> \<lparr>count = 1, resetTime = ?R\<rparr>))"
    using rateLimit_opens [OF opens] c1(1) by simp
  from send_refused [OF c1(2) c1(3) rl] obtain m
    where step: "send c1 s = socketError (sc_socket c1) m
                   (s\<lparr>messageRateLimit := (messageRateLimit s)(u \<mapsto> \<lparr>count = 1, resetTime = ?R\<rparr>)\<rparr>)" ..
  have 1: "messageRateLimit (send c1 s) u = Some \<lparr>count = 1, resetTime = ?R\<rparr>"
    by (simp add: step)
  have 2: "1 + length cs \<le> 10" using len by simp
  have 3: "\<forall>c\<in>set cs. userId (sc_socket c) = u \<and> wellSized (sc_content c)
              \<and> refused (db (send c1 s)) c \<and> sc_now c < ?R"
    using rej win by (simp add: step)
  from sends_refused [OF 1 2 3]
  have full: "messageRateLimit (sends (c1 # cs) s) u = Some \<lparr>count = 10, resetTime = ?R\<rparr>"
    and same: "db (sends (c1 # cs) s) = db s"
    using len by (simp_all add: step)
  have "send c (sends (c1 # cs) s)
                = socketError (sc_socket c) TooManyMessages (sends (c1 # cs) s)"
    if "userId (sc_socket c) = u" "wellSized (sc_content c)" "sc_now c < ?R" for c
    unfolding send_def
    by (rule send_rate_limited) (use that rateLimit_full [OF full] in auto)
  then show ?thesis using full same by simp
qed

lemma demo_url: "wellSized ''see http://example.com''" "regexTest urlPattern ''see http://example.com''"
  by code_simp+

text \<open>Ten messages with a link, then a greeting from the same user.\<close>

theorem rejected_sends_consume_quota_witness:
  "windowOpensAt demoServer demoA (sc_now (demoUrlCall 0))
   \<and> length (map demoUrlCall [1..<10]) = 9
   \<and> list_all (\<lambda>c. userId (sc_socket c) = demoA \<and> wellSized (sc_content c)
                   \<and> refused (db demoServer) c) (map demoUrlCall [0..<10])
   \<and> list_all (\<lambda>c. sc_now c < sc_now (demoUrlCall 0) + 60000) (map demoUrlCall [1..<10])
   \<and> acceptable (db demoServer) demoA (demoCall demoA ''hello'' 10)
   \<and> messages (db (sends (map demoUrlCall [0..<10]) demoServer)) = []
   \<and> send (demoCall demoA ''hello'' 10) (sends (map demoUrlCall [0..<10]) demoServer)
        = socketError (demoSocket demoA) TooManyMessages
            (sends (map demoUrlCall [0..<10]) demoServer)
   \<and> messages (db (send (demoCall demoA ''hello'' 10)
          (sends (map demoUrlCall [0..<10]) demoServer))) = []"
proof -
  let ?c1 = "demoUrlCall 0"
  let ?cs = "map demoUrlCall [1..<10]"
  have all: "map demoUrlCall [0..<10] = ?c1 # ?cs"
    by (simp add: upt_conv_Cons)
  have one: "userId (sc_socket (demoUrlCall n)) = demoA \<and> wellSized (sc_content (demoUrlCall n))
              \<and> refused (db demoServer) (demoUrlCall n)" for n
    by (simp add: demoUrlCall_def demoCall_def demoSocket_def demo_url refused_def
             del: regexTest.simps)
  have h1: "windowOpensAt demoServer demoA (sc_now ?c1)"
    by (simp add: windowOpensAt_def demoServer_def)
  have h2: "length ?cs = 9" by simp
  have h3: "\<forall>c\<in>set (?c1 # ?cs). userId (sc_socket c) = demoA \<and> wellSized (sc_content c)
                 \<and> refused (db demoServer) c"
    using one by auto
  have h4: "\<forall>c\<in>set ?cs. sc_now c < sc_now ?c1 + 60000"
    by (auto simp: demoUrlCall_def demoCall_def)
  note main = rejected_sends_consume_quota [OF h1 h2 h3 h4]
  have e: "messages (db demoServer) = []" by (simp add: demoServer_def demoStore_def)
  have acc: "acceptable (db demoServer) demoA (demoCall demoA ''hello'' 10)"
    by (simp add: demoServer_def demo_acceptable)
  have c1: "messages (db (sends (?c1 # ?cs) demoServer)) = []"
    using main e by simp
  have c2: "send (demoCall demoA ''hello'' 10) (sends (?c1 # ?cs) demoServer)
        = socketError (demoSocket demoA) TooManyMessages (sends (?c1 # ?cs) demoServer)
      \<and> db (send (demoCall demoA ''hello'' 10) (sends (?c1 # ?cs) demoServer)) = db demoServer"
  proof -
    have pre: "userId (sc_socket (demoCall demoA ''hello'' 10)) = demoA
                \<and> wellSized (sc_content (demoCall demoA ''hello'' 10))
                \<and> sc_now (demoCall demoA ''hello'' 10) < sc_now ?c1 + 60000"
      by (simp add: demoCall_def demoUrlCall_def demoSocket_def demo_hello)
    have sock: "sc_socket (demoCall demoA ''hello'' 10) = demoSocket demoA"
      by (simp add: demoCall_def)
    from main [THEN conjunct2, THEN conjunct2, rule_format, OF pre]
    show ?thesis unfolding sock .
  qed
  have c3: "messages (db (send (demoCall demoA ''hello'' 10) (sends (?c1 # ?cs) demoServer))) = []"
    by (simp only: c2 [THEN conjunct2] e)
  show ?thesis unfolding all list_all_iff using h1 h2 h3 h4 acc c1 c2 c3 by blast
qed

inductive_cases matches_NeverE: "matches Never w"

inductive_cases matches_EpsE: "matches Eps w"

inductive_cases matches_AtomE: "matches (Atom p) w"

inductive_cases matches_AltE: "matches (Alt r s) w"

inductive_cases matches_SeqE: "matches (Seq r s) w"

lemma matches_nil_nullable: "matches r w \<Longrightarrow> w = [] \<Longrightarrow> nullable r"
  by (induction rule: matches.induct) auto

lemma nullable_matches_nil: "nullable r \<Longrightarrow> matches r []"
proof (induction r)
  case (Seq r s)
  then have "matches (Seq r s) ([] @ [])" by (intro mSeq) auto
  then show ?case by simp
qed (auto intro: matches.intros)

lemma matches_deriv: "matches r x \<Longrightarrow> x = c # w \<Longrightarrow> matches (deriv c r) w"
proof (induction arbitrary: w rule: matches.induct)
  case (mSeq r u s v)
  show ?case
  proof (cases u)
    case Nil
    then have "nullable r" using mSeq.hyps(1) matches_nil_nullable by blast
    moreover have "matches (deriv c s) w" using mSeq.IH(2) mSeq.prems Nil by simp
    ultimately show ?thesis by (auto intro: mAltR)
  next
    case (Cons a u')
    then have "a = c" and w: "w = u' @ v" using mSeq.prems by auto
    then have "matches (deriv c r) u'" using mSeq.IH(1) Cons by simp
    then have "matches (Seq (deriv c r) s) (u' @ v)" using mSeq.hyps(2) by (rule matches.mSeq)
    then show ?thesis using w by (auto intro: mAltL)
  qed
next
  case (mStarStep r u v)
  show ?case
  proof (cases u)
    case Nil
    then show ?thesis using mStarStep.IH(2) mStarStep.prems by simp
  next
    case (Cons a u')
    then have "a = c" and w: "w = u' @ v" using mStarStep.prems by auto
    then have "matches (deriv c r) u'" using mStarStep.IH(1) Cons by simp
    then have "matches (Seq (deriv c r) (Star r)) (u' @ v)"
      using mStarStep.hyps(2) by (rule matches.mSeq)
    then show ?thesis using w by simp
  qed
qed (auto intro: matches.intros)

lemma deriv_matches: "matches (deriv c r) w \<Longrightarrow> matches r (c # w)"
proof (induction r arbitrary: w)
  case Never
  then show ?case by (auto elim: matches_NeverE)
next
  case Eps
  then show ?case by (auto elim: matches_NeverE)
next
  case (Atom p)
  then show ?case
    by (auto split: if_splits elim!: matches_NeverE matches_EpsE intro: mAtom)
next
  case (Alt r s)
  then show ?case by (auto elim!: matches_AltE intro: mAltL mAltR)
next
  case (Seq r s)
  have left: "matches (Seq r s) (c # w)" if "matches (Seq (deriv c r) s) w"
  proof -
    from that obtain u v where "w = u @ v" "matches (deriv c r) u" "matches s v"
      by (auto elim: matches_SeqE)
    then have "matches (Seq r s) ((c # u) @ v)" using Seq.IH(1) by (intro mSeq) auto
    then show ?thesis using \<open>w = u @ v\<close> by simp
  qed
  have right: "matches (Seq r s) (c # w)" if "nullable r" "matches (deriv c s) w"
  proof -
    have "matches (Seq r s) ([] @ (c # w))"
      using that Seq.IH(2) nullable_matches_nil by (intro mSeq) auto
    then show ?thesis by simp
  qed
  from Seq.prems show ?case
    by (auto split: if_splits elim!: matches_AltE intro: left right)
next
  case (Star r)
  from Star.prems obtain u v where "w = u @ v" "matches (deriv c r) u" "matches (Star r) v"
    by (auto elim: matches_SeqE)
  then have "matches (Star r) ((c # u) @ v)" using Star.IH by (intro mStarStep) auto
  then show ?case using \<open>w = u @ v\<close> by simp
qed

lemma matchPrefix_iff: "matchPrefix r s \<longleftrightarrow> (\<exists>w post. s = w @ post \<and> matches r w)"
proof (induction s arbitrary: r)
  case Nil
  then show ?case using matches_nil_nullable nullable_matches_nil by auto
next
  case (Cons c cs)
  show ?case
  proof
    assume "matchPrefix r (c # cs)"
    then consider "nullable r" | "matchPrefix (deriv c r) cs" by auto
    then show "\<exists>w post. c # cs = w @ post \<and> matches r w"
    proof cases
      case 1
      then have "c # cs = [] @ (c # cs) \<and> matches r []" using nullable_matches_nil by simp
      then show ?thesis by blast
    next
      case 2
      then obtain w post where "cs = w @ post" "matches (deriv c r) w" using Cons.IH by blast
      then have "c # cs = (c # w) @ post \<and> matches r (c # w)" using deriv_matches by simp
      then show ?thesis by blast
    qed
  next
    assume "\<exists>w post. c # cs = w @ post \<and> matches r w"
    then obtain w post where wp: "c # cs = w @ post" "matches r w" by blast
    show "matchPrefix r (c # cs)"
    proof (cases w)
      case Nil
      then show ?thesis using wp matches_nil_nullable by auto
    next
      case (Cons a w')
      then have "cs = w' @ post" "matches (deriv c r) w'" using wp matches_deriv by auto
      then show ?thesis using Cons.IH by auto
    qed
  qed
qed

lemma regexTest_iff:
  "regexTest r s \<longleftrightarrow> (\<exists>pre w post. s = pre @ w @ post \<and> matches r w)"
proof (induction s)
  case Nil
  then show ?case using matches_nil_nullable nullable_matches_nil by auto
next
  case (Cons c cs)
  show ?case
  proof
    assume "regexTest r (c # cs)"
    then consider "matchPrefix r (c # cs)" | "regexTest r cs" by auto
    then show "\<exists>pre w post. c # cs = pre @ w @ post \<and> matches r w"
    proof cases
      case 1
      then obtain w post where "c # cs = [] @ w @ post \<and> matches r w"
        using matchPrefix_iff by auto
      then show ?thesis by blast
    next
      case 2
      then obtain pre w post where "cs = pre @ w @ post" "matches r w" using Cons.IH by blast
      then have "c # cs = (c # pre) @ w @ post \<and> matches r w" by simp
      then show ?thesis by blast
    qed
  next
    assume "\<exists>pre w post. c # cs = pre @ w @ post \<and> matches r w"
    then obtain pre w post where wp: "c # cs = pre @ w @ post" "matches r w" by blast
    show "regexTest r (c # cs)"
    proof (cases pre)
      case Nil
      then have "matchPrefix r (c # cs)" using wp matchPrefix_iff by auto
      then show ?thesis by simp
    next
      case (Cons a pre')
      then have "cs = pre' @ w @ post" using wp by simp
      then have "regexTest r cs" using Cons.IH wp(2) by blast
      then show ?thesis by simp
    qed
  qed
qed

lemma regexTest_inside: "regexTest r m \<Longrightarrow> regexTest r (pre @ m @ post)"
proof -
  assume "regexTest r m"
  then obtain p w q where "m = p @ w @ q" "matches r w" using regexTest_iff by blast
  then have "pre @ m @ post = (pre @ p) @ w @ (q @ post) \<and> matches r w" by simp
  then show ?thesis using regexTest_iff by blast
qed

lemma matches_Rep:
  "length w = n \<Longrightarrow> list_all p w \<Longrightarrow> matches (Rep n (Atom p)) w"
proof (induction n arbitrary: w)
  case 0
  then show ?case by (auto intro: mEps)
next
  case (Suc n)
  then obtain c w' where w: "w = c # w'" by (cases w) auto
  then have "matches (Atom p) [c]" "matches (Rep n (Atom p)) w'"
    using Suc by (auto intro: mAtom)
  then have "matches (Seq (Atom p) (Rep n (Atom p))) ([c] @ w')" by (rule mSeq)
  then show ?case using w by simp
qed

lemma matches_RepUpTo:
  "length w \<le> n \<Longrightarrow> list_all p w \<Longrightarrow> matches (RepUpTo n (Atom p)) w"
proof (induction n arbitrary: w)
  case 0
  then show ?case by (auto intro: mEps)
next
  case (Suc n)
  show ?case
  proof (cases w)
    case Nil
    then show ?thesis by (auto simp: Opt_def intro: mAltR mEps)
  next
    case (Cons c w')
    then have "matches (Atom p) [c]" "matches (RepUpTo n (Atom p)) w'"
      using Suc by (auto intro: mAtom)
    then have "matches (Seq (Atom p) (RepUpTo n (Atom p))) ([c] @ w')" by (rule mSeq)
    then show ?thesis using Cons by (auto simp: Opt_def intro: mAltL)
  qed
qed

lemma matches_RepRange:
  assumes "m \<le> length w" and "length w \<le> n" and "list_all p w"
  shows "matches (RepRange m n (Atom p)) w"
proof -
  have "matches (Rep m (Atom p)) (take m w)"
    using assms by (intro matches_Rep) (auto simp: list_all_iff dest: in_set_takeD)
  moreover have "matches (RepUpTo (n - m) (Atom p)) (drop m w)"
    using assms by (intro matches_RepUpTo) (auto simp: list_all_iff dest: in_set_dropD)
  ultimately have "matches (RepRange m n (Atom p)) (take m w @ drop m w)"
    unfolding RepRange_def by (rule mSeq)
  then show ?thesis by simp
qed

lemma matches_phoneSep_nil: "matches phoneSep []"
  by (auto simp: phoneSep_def Opt_def intro: mAltR mEps)

lemma ten_digits_phone:
  assumes "length ds = 10" and "list_all isDigit ds"
  shows "matches phonePattern ds"
proof -
  let ?a = "take 4 ds" and ?b = "take 3 (drop 4 ds)" and ?c = "drop 7 ds"
  have a: "matches (RepRange 3 4 (Atom isDigit)) ?a"
    using assms by (intro matches_RepRange) (auto simp: list_all_iff dest: in_set_takeD)
  have b: "matches (RepRange 3 4 (Atom isDigit)) ?b"
    using assms
    by (intro matches_RepRange) (auto simp: list_all_iff dest!: in_set_takeD in_set_dropD)
  have c: "matches (RepRange 3 4 (Atom isDigit)) ?c"
    using assms by (intro matches_RepRange) (auto simp: list_all_iff dest: in_set_dropD)
  note s1 = mSeq [OF matches_phoneSep_nil c]
  note s2 = mSeq [OF b s1]
  note s3 = mSeq [OF matches_phoneSep_nil s2]
  note s4 = mSeq [OF a s3]
  have "matches (Seq (RepRange 3 4 (Atom isDigit)) (Seq phoneSep (Seq (RepRange 3 4 (Atom isDigit)) (Seq phoneSep (RepRange 3 4 (Atom isDigit)))))) (?a @ [] @ ?b @ [] @ ?c)"
    by (rule s4)
  moreover have "?a @ [] @ ?b @ [] @ ?c = ds"
  proof -
    have "drop 7 ds = drop 3 (drop 4 ds)" by simp
    then have "?b @ ?c = drop 4 ds" by (simp only: append_take_drop_id)
    then have "?a @ (?b @ ?c) = ds" by (simp only: append_take_drop_id)
    then show ?thesis by (simp only: append_Nil)
  qed
  ultimately show ?thesis unfolding phonePattern_def by (auto intro: mAltR)
qed

lemma ten_digits_rejected:
  "length ds = 10 \<Longrightarrow> list_all isDigit ds \<Longrightarrow> regexTest phonePattern (pre @ ds @ post)"
  using ten_digits_phone regexTest_iff by blast

lemma example_link_rejected: "regexTest urlPattern (pre @ ''http://example.com'' @ post)"
proof -
  have "regexTest urlPattern ''http://example.com''" by code_simp
  then show ?thesis by (rule regexTest_inside)
qed

lemma emitted_fold:
  "emitted (fold (\<lambda>x. emit (f x) (g x)) xs s) = emitted s @ map (\<lambda>x. (f x, g x)) xs"
  by (induction xs arbitrary: s) (simp_all add: emit_def)

lemma newEvents_socketError [simp]:
  "newEvents s (socketError sock m (s\<lparr>messageRateLimit := t\<rparr>))
     = [(ToSocket (socket_id sock), ErrorEvent m)]"
  "newEvents s (socketError sock m s) = [(ToSocket (socket_id sock), ErrorEvent m)]"
  by (simp_all add: newEvents_def)

text \<open>What an accepted send leaves behind, in full.\<close>

lemma persist_accepted_full:
  assumes i: "castObjectId cid = Some i"
    and conv: "find (\<lambda>c. conv_id c = i) (conversations (db s)) = Some conv"
    and mem: "userId sock \<in> set (users conv)"
    and u: "castObjectId (userId sock) = Some (userId sock)"
    and t: "trim text \<noteq> []" "length text \<le> 5000"
    and m: "m = \<lparr>msg_id = newId, conversation = i, sender = userId sock, content = trim text,
                 isRead = False, readAt = None, msg_createdAt = now\<rparr>"
  shows "persistAndBroadcast sock cid text now newId noFault s =
           (fold (\<lambda>other. emit (ToRoom (userRoom other)) (MessageNotification cid m))
              (filter (\<lambda>x. x \<noteq> userId sock) (users conv))
              (emit (ToRoom (conversationRoom cid)) (NewMessage m cid)
                 (s\<lparr>db := (db s)\<lparr>messages := messages (db s) @ [m],
                        conversations :=
                          map (\<lambda>c. if conv_id c = i
                                    then c\<lparr>lastMessage := Some newId, lastMessageAt := Some now\<rparr>
                                    else c) (conversations (db s))\<rparr>\<rparr>)),
            None)"
proof -
  have cid: "conv_id conv = i" and inl: "conv \<in> set (conversations (db s))"
    using conv by (auto simp: find_Some_iff)
  have fb: "Conversation_findById None (db s) cid = Inr (Some conv)"
    by (simp add: Conversation_findById_def i conv)
  note mc = Message_create_ok [OF i u t, of "db s" now newId]
  let ?db1 = "(db s)\<lparr>messages := messages (db s) @ [m]\<rparr>"
  let ?g = "\<lambda>c. if conv_id c = i then c\<lparr>lastMessage := Some newId, lastMessageAt := Some now\<rparr> else c"
  let ?db2 = "?db1\<lparr>conversations := map ?g (conversations (db s))\<rparr>"
  have sv: "Conversation_save None ?db1 (conv\<lparr>lastMessage := Some newId, lastMessageAt := Some now\<rparr>) = Inr ?db2"
    using inl cid by (auto simp: Conversation_save_def)
  show ?thesis
    using sv by (simp add: persistAndBroadcast_def noFault_def fb mem mc m)
qed

lemma send_accepted_full:
  assumes "acceptable (db s) u c" and u: "castObjectId u = Some u"
    and rl: "rateLimit (messageRateLimit s) u (sc_now c) = Some table"
  shows "\<exists>m conv i. castObjectId (sc_conversationId c) = Some i
           \<and> find (\<lambda>x. conv_id x = i) (conversations (db s)) = Some conv
           \<and> m = \<lparr>msg_id = sc_newId c, conversation = i, sender = u,
                   content = trim (sc_content c), isRead = False, readAt = None,
                   msg_createdAt = sc_now c\<rparr>
           \<and> messages (db (send c s)) = messages (db s) @ [m]
           \<and> conversations (db (send c s)) =
                map (\<lambda>x. if conv_id x = i
                          then x\<lparr>lastMessage := Some (sc_newId c), lastMessageAt := Some (sc_now c)\<rparr>
                          else x) (conversations (db s))
           \<and> newEvents s (send c s) =
                (ToRoom (conversationRoom (sc_conversationId c)), NewMessage m (sc_conversationId c))
                # map (\<lambda>other. (ToRoom (userRoom other), MessageNotification (sc_conversationId c) m))
                    (filter (\<lambda>x. x \<noteq> u) (users conv))"
proof -
  from assms(1) have uid: "userId (sc_socket c) = u" and ws: "wellSized (sc_content c)"
    and pc: "policyClean (sc_content c)" and nf: "sc_fault c = noFault"
    and part: "participant (db s) (sc_conversationId c) u"
    by (auto simp: acceptable_def)
  from part obtain i conv where i: "castObjectId (sc_conversationId c) = Some i"
    and conv: "find (\<lambda>c. conv_id c = i) (conversations (db s)) = Some conv"
    and mem: "u \<in> set (users conv)"
    by (auto simp: participant_def split: option.splits)
  let ?s1 = "s\<lparr>messageRateLimit := table\<rparr>"
  let ?m = "\<lparr>msg_id = sc_newId c, conversation = i, sender = u,
                   content = trim (sc_content c), isRead = False, readAt = None,
                   msg_createdAt = sc_now c\<rparr>"
  have conv1: "find (\<lambda>c. conv_id c = i) (conversations (db ?s1)) = Some conv" using conv by simp
  have mem1: "userId (sc_socket c) \<in> set (users conv)" using mem uid by simp
  have u1: "castObjectId (userId (sc_socket c)) = Some (userId (sc_socket c))" using u uid by simp
  have t: "trim (sc_content c) \<noteq> []" "length (sc_content c) \<le> 5000"
    using ws by (auto simp: wellSized_def)
  have m1: "?m = \<lparr>msg_id = sc_newId c, conversation = i, sender = userId (sc_socket c),
                   content = trim (sc_content c), isRead = False, readAt = None,
                   msg_createdAt = sc_now c\<rparr>" using uid by simp
  note pa = persist_accepted_full [OF i conv1 mem1 u1 t m1]
  have "send c s = fst (persistAndBroadcast (sc_socket c) (sc_conversationId c) (sc_content c)
                          (sc_now c) (sc_newId c) noFault ?s1)"
    using ws pc rl uid nf pa
    by (simp add: send_def send_message_def wellSized_def policyClean_def)
  then have "send c s = fold (\<lambda>other. emit (ToRoom (userRoom other)) (MessageNotification (sc_conversationId c) ?m))
              (filter (\<lambda>x. x \<noteq> userId (sc_socket c)) (users conv))
              (emit (ToRoom (conversationRoom (sc_conversationId c))) (NewMessage ?m (sc_conversationId c))
                 (?s1\<lparr>db := (db ?s1)\<lparr>messages := messages (db ?s1) @ [?m],
                        conversations :=
                          map (\<lambda>x. if conv_id x = i
                                    then x\<lparr>lastMessage := Some (sc_newId c), lastMessageAt := Some (sc_now c)\<rparr>
                                    else x) (conversations (db ?s1))\<rparr>\<rparr>))"
    by (simp only: pa fst_conv)
  then show ?thesis using i conv uid
    by (simp add: newEvents_def emitted_fold)
qed

lemma send_policy_rejects:
  assumes "regexTest urlPattern (sc_content c) \<or> regexTest phonePattern (sc_content c)"
  shows "db (send c s) = db s \<and> rooms (send c s) = rooms s
       \<and> (\<exists>m. newEvents s (send c s) = [(ToSocket (socket_id (sc_socket c)), ErrorEvent m)])"
  using assms
  by (auto simp: send_def send_message_def Let_def newEvents_def split: option.splits)

text \<open>
  Claim C5. A send whose content matches the link pattern or the phone pattern persists
  nothing and answers the sender alone with an error; once the size checks and the rate
  limit are passed, the error is the link message, or the phone message when only the
  phone pattern matches. Every text that contains \<open>http://example.com\<close> matches the link
  pattern, and every text that contains ten consecutive digits matches the phone
  pattern. A send that matches neither pattern, with every other precondition holding,
  is persisted and broadcast to the conversation's room.
\<close>

theorem content_policy:
  "(regexTest urlPattern (sc_content c) \<or> regexTest phonePattern (sc_content c) \<longrightarrow>
      db (send c s) = db s
      \<and> (\<exists>m. newEvents s (send c s) = [(ToSocket (socket_id (sc_socket c)), ErrorEvent m)]))
   \<and> (wellSized (sc_content c)
        \<and> rateLimit (messageRateLimit s) (userId (sc_socket c)) (sc_now c) = Some table \<longrightarrow>
      (regexTest urlPattern (sc_content c) \<longrightarrow>
         send c s = socketError (sc_socket c) LinkNotAllowed (s\<lparr>messageRateLimit := table\<rparr>))
      \<and> (\<not> regexTest urlPattern (sc_content c) \<and> regexTest phonePattern (sc_content c) \<longrightarrow>
         send c s = socketError (sc_socket c) PhoneNotAllowed (s\<lparr>messageRateLimit := table\<rparr>)))
   \<and> regexTest urlPattern (pre @ ''http://example.com'' @ post)
   \<and> (length ds = 10 \<and> list_all isDigit ds \<longrightarrow> regexTest phonePattern (pre @ ds @ post))
   \<and> (acceptable (db s) u c \<and> castObjectId u = Some u
        \<and> rateLimit (messageRateLimit s) u (sc_now c) = Some table \<longrightarrow>
      (\<exists>m. messages (db (send c s)) = messages (db s) @ [m]
           \<and> content m = trim (sc_content c) \<and> sender m = u
           \<and> hd (newEvents s (send c s))
               = (ToRoom (conversationRoom (sc_conversationId c)),
                  NewMessage m (sc_conversationId c))))"
proof -
  have A: "regexTest urlPattern (sc_content c) \<or> regexTest phonePattern (sc_content c) \<longrightarrow>
      db (send c s) = db s
      \<and> (\<exists>m. newEvents s (send c s) = [(ToSocket (socket_id (sc_socket c)), ErrorEvent m)])"
    using send_policy_rejects [of c s] by blast
  have B: "wellSized (sc_content c)
        \<and> rateLimit (messageRateLimit s) (userId (sc_socket c)) (sc_now c) = Some table \<longrightarrow>
      (regexTest urlPattern (sc_content c) \<longrightarrow>
         send c s = socketError (sc_socket c) LinkNotAllowed (s\<lparr>messageRateLimit := table\<rparr>))
      \<and> (\<not> regexTest urlPattern (sc_content c) \<and> regexTest phonePattern (sc_content c) \<longrightarrow>
         send c s = socketError (sc_socket c) PhoneNotAllowed (s\<lparr>messageRateLimit := table\<rparr>))"
    by (simp add: send_def send_message_def wellSized_def Let_def)
  have C: "regexTest urlPattern (pre @ ''http://example.com'' @ post)"
    by (rule example_link_rejected)
  have D: "length ds = 10 \<and> list_all isDigit ds \<longrightarrow> regexTest phonePattern (pre @ ds @ post)"
    using ten_digits_rejected by blast
  have E: "acceptable (db s) u c \<and> castObjectId u = Some u
        \<and> rateLimit (messageRateLimit s) u (sc_now c) = Some table \<longrightarrow>
      (\<exists>m. messages (db (send c s)) = messages (db s) @ [m]
           \<and> content m = trim (sc_content c) \<and> sender m = u
           \<and> hd (newEvents s (send c s))
               = (ToRoom (conversationRoom (sc_conversationId c)),
                  NewMessage m (sc_conversationId c)))"
  proof (intro impI, elim conjE)
    assume "acceptable (db s) u c" "castObjectId u = Some u"
      "rateLimit (messageRateLimit s) u (sc_now c) = Some table"
    from send_accepted_full [OF this] obtain m where
      "messages (db (send c s)) = messages (db s) @ [m]"
      "content m = trim (sc_content c)" "sender m = u"
      "hd (newEvents s (send c s))
               = (ToRoom (conversationRoom (sc_conversationId c)),
                  NewMessage m (sc_conversationId c))"
      by auto
    then show "\<exists>m. messages (db (send c s)) = messages (db s) @ [m]
           \<and> content m = trim (sc_content c) \<and> sender m = u
           \<and> hd (newEvents s (send c s))
               = (ToRoom (conversationRoom (sc_conversationId c)),
                  NewMessage m (sc_conversationId c))" by blast
  qed
  from A B C D E show ?thesis by (intro conjI)
qed

lemma demo_rateLimit_first:
  "rateLimit (messageRateLimit demoServer) demoA (sc_now (demoCall demoA t 0)) = Some demoTable"
  by (simp add: rateLimit_def demoServer_def demoCall_def demoTable_def)

lemma demo_link: "wellSized ''http://example.com''" "regexTest urlPattern ''http://example.com''"
  by code_simp+

lemma demo_phone: "wellSized ''0912345678''" "\<not> regexTest urlPattern ''0912345678''"
  "regexTest phonePattern ''0912345678''" "list_all isDigit ''0912345678''"
  by code_simp+

text \<open>A link, a phone number and a greeting, each as the first message of a user.\<close>

theorem content_policy_witness:
  "send (demoCall demoA ''http://example.com'' 0) demoServer
     = socketError (demoSocket demoA) LinkNotAllowed (demoServer\<lparr>messageRateLimit := demoTable\<rparr>)
   \<and> db (send (demoCall demoA ''http://example.com'' 0) demoServer) = db demoServer
   \<and> send (demoCall demoA ''0912345678'' 0) demoServer
     = socketError (demoSocket demoA) PhoneNotAllowed (demoServer\<lparr>messageRateLimit := demoTable\<rparr>)
   \<and> regexTest phonePattern (''call '' @ ''0912345678'' @ '' now'')
   \<and> map content (messages (db (send (demoCall demoA ''hello'' 0) demoServer))) = [''hello'']"
proof -
  have sock: "sc_socket (demoCall demoA t 0) = demoSocket demoA"
    and cont: "sc_content (demoCall demoA t 0) = t"
    and uid: "userId (sc_socket (demoCall demoA t 0)) = demoA" for t
    by (simp_all add: demoCall_def demoSocket_def)
  have usr: "userId (demoSocket demoA) = demoA" by (simp add: demoSocket_def)
  note link = content_policy [of "demoCall demoA ''http://example.com'' 0" demoServer demoTable]
  have 1: "send (demoCall demoA ''http://example.com'' 0) demoServer
     = socketError (demoSocket demoA) LinkNotAllowed (demoServer\<lparr>messageRateLimit := demoTable\<rparr>)"
    using link [THEN conjunct2, THEN conjunct1] demo_link demo_rateLimit_first
    by (simp only: sock cont uid usr simp_thms)
  have 2: "db (send (demoCall demoA ''http://example.com'' 0) demoServer) = db demoServer"
    using link [THEN conjunct1] demo_link by (simp only: sock cont uid usr simp_thms)
  note phone = content_policy [of "demoCall demoA ''0912345678'' 0" demoServer demoTable
      "''call ''" "'' now''" "''0912345678''"]
  have 3: "send (demoCall demoA ''0912345678'' 0) demoServer
     = socketError (demoSocket demoA) PhoneNotAllowed (demoServer\<lparr>messageRateLimit := demoTable\<rparr>)"
    using phone [THEN conjunct2, THEN conjunct1] demo_phone demo_rateLimit_first
    by (simp only: sock cont uid usr simp_thms)
  have 4: "regexTest phonePattern (''call '' @ ''0912345678'' @ '' now'')"
    using phone [THEN conjunct2, THEN conjunct2, THEN conjunct2, THEN conjunct1] demo_phone(4)
    by simp
  note hello = content_policy [of "demoCall demoA ''hello'' 0" demoServer demoTable _ _ _ demoA]
  have t: "trim ''hello'' = ''hello''" by code_simp
  have "acceptable (db demoServer) demoA (demoCall demoA ''hello'' 0)"
    by (simp add: demoServer_def demo_acceptable)
  then have 5: "map content (messages (db (send (demoCall demoA ''hello'' 0) demoServer))) = [''hello'']"
    using hello [THEN conjunct2, THEN conjunct2, THEN conjunct2, THEN conjunct2]
      demo_ids(1) demo_rateLimit_first [of "''hello''"]
    by (auto simp: cont t demoServer_def demoStore_def)
  from 1 2 3 4 5 show ?thesis by (intro conjI)
qed

lemma Message_create_cases:
  "Message_create flt st cid uid text now newId = Inr (m, st') \<Longrightarrow>
     flt = None \<and> st' = st\<lparr>messages := messages st @ [m]\<rparr> \<and> msg_id m = newId
     \<and> castObjectId cid = Some (conversation m)"
  by (auto simp: Message_create_def Let_def split: option.splits if_splits)

lemma Conversation_save_cases:
  "Conversation_save flt st conv = Inr st' \<Longrightarrow>
     flt = None
     \<and> st' = st\<lparr>conversations := map (\<lambda>c. if conv_id c = conv_id conv
                                  then c\<lparr>lastMessage := lastMessage conv,
                                         lastMessageAt := lastMessageAt conv\<rparr>
                                  else c) (conversations st)\<rparr>"
  by (auto simp: Conversation_save_def split: option.splits if_splits)

lemma Conversation_findById_cases:
  "Conversation_findById flt st cid = Inr (Some conv) \<Longrightarrow>
     flt = None \<and> (\<exists>i. castObjectId cid = Some i
        \<and> find (\<lambda>c. conv_id c = i) (conversations st) = Some conv \<and> conv_id conv = i)"
  by (auto simp: Conversation_findById_def find_Some_iff split: option.splits)

text \<open>The four ways the persisting part of a send can end.\<close>

lemma persist_outcomes:
  obtains
    (thrown) e where "persistAndBroadcast sock cid text now newId fault s = (s, Some e)"
  | (refused) m where "persistAndBroadcast sock cid text now newId fault s = (socketError sock m s, None)"
  | (partial) e m where
      "persistAndBroadcast sock cid text now newId fault s
         = (s\<lparr>db := (db s)\<lparr>messages := messages (db s) @ [m]\<rparr>\<rparr>, Some e)"
      "fault AtFindById = None" "fault AtCreate = None"
      "fault AtPopulate = Some e \<or> (fault AtPopulate = None \<and> fault AtSave = Some e)
         \<or> (fault AtPopulate = None \<and> fault AtSave = None)"
  | (stored) m conv i where
      "persistAndBroadcast sock cid text now newId fault s
         = (fold (\<lambda>other. emit (ToRoom (userRoom other)) (MessageNotification cid m))
              (filter (\<lambda>x. x \<noteq> userId sock) (users conv))
              (emit (ToRoom (conversationRoom cid)) (NewMessage m cid)
                 (s\<lparr>db := (db s)\<lparr>messages := messages (db s) @ [m],
                        conversations :=
                          map (\<lambda>c. if conv_id c = i
                                    then c\<lparr>lastMessage := Some (msg_id m), lastMessageAt := Some now\<rparr>
                                    else c) (conversations (db s))\<rparr>\<rparr>)),
            None)"
      "castObjectId cid = Some i" "conversation m = i"
      "find (\<lambda>c. conv_id c = i) (conversations (db s)) = Some conv"
      "\<forall>p\<in>set persistencePoints. fault p = None"
proof (cases "Conversation_findById (fault AtFindById) (db s) cid")
  case (Inl e)
  then show ?thesis using thrown by (simp add: persistAndBroadcast_def)
next
  case (Inr found)
  show ?thesis
  proof (cases found)
    case None
    then show ?thesis using Inr refused by (simp add: persistAndBroadcast_def)
  next
    case (Some conv)
    note fb = Conversation_findById_cases [OF Inr [unfolded Some]]
    then obtain i where i: "castObjectId cid = Some i"
      "find (\<lambda>c. conv_id c = i) (conversations (db s)) = Some conv" "conv_id conv = i"
      by blast
    show ?thesis
    proof (cases "userId sock \<in> set (users conv)")
      case False
      then show ?thesis using Inr Some refused by (simp add: persistAndBroadcast_def)
    next
      case True
      show ?thesis
      proof (cases "Message_create (fault AtCreate) (db s) cid (userId sock) (trim text) now newId")
        case (Inl e)
        then show ?thesis using Inr Some True thrown by (simp add: persistAndBroadcast_def)
      next
        case created: (Inr r)
        obtain m db1 where r: "r = (m, db1)" by (cases r)
        note mc = Message_create_cases [OF created [unfolded r]]
        show ?thesis
        proof (cases "fault AtPopulate")
          case pop: (Some e)
          have "persistAndBroadcast sock cid text now newId fault s
                  = (s\<lparr>db := (db s)\<lparr>messages := messages (db s) @ [m]\<rparr>\<rparr>, Some e)"
            using Inr Some True created r mc pop by (simp add: persistAndBroadcast_def)
          then show ?thesis using partial fb mc pop by blast
        next
          case pop: None
          show ?thesis
          proof (cases "Conversation_save (fault AtSave) db1
                          (conv\<lparr>lastMessage := Some (msg_id m), lastMessageAt := Some now\<rparr>)")
            case (Inl e)
            have "persistAndBroadcast sock cid text now newId fault s
                  = (s\<lparr>db := (db s)\<lparr>messages := messages (db s) @ [m]\<rparr>\<rparr>, Some e)"
              using Inr Some True created r mc pop Inl by (simp add: persistAndBroadcast_def)
            moreover have "fault AtSave = Some e \<or> fault AtSave = None"
              using Inl by (auto simp: Conversation_save_def split: option.splits)
            ultimately show ?thesis using partial fb mc pop by blast
          next
            case saved: (Inr db2)
            note sv = Conversation_save_cases [OF saved]
            have db2: "db2 = (db s)\<lparr>messages := messages (db s) @ [m],
                        conversations :=
                          map (\<lambda>c. if conv_id c = i
                                    then c\<lparr>lastMessage := Some (msg_id m), lastMessageAt := Some now\<rparr>
                                    else c) (conversations (db s))\<rparr>"
              using sv mc i(3) by simp
            have "persistAndBroadcast sock cid text now newId fault s
         = (fold (\<lambda>other. emit (ToRoom (userRoom other)) (MessageNotification cid m))
              (filter (\<lambda>x. x \<noteq> userId sock) (users conv))
              (emit (ToRoom (conversationRoom cid)) (NewMessage m cid) (s\<lparr>db := db2\<rparr>)), None)"
              using Inr Some True created r pop saved by (simp add: persistAndBroadcast_def)
            moreover have "\<forall>p\<in>set persistencePoints. fault p = None"
              using fb mc pop sv by (simp add: persistencePoints_def)
            moreover have "conversation m = i" using mc i(1) by simp
            ultimately show ?thesis using stored i db2 by blast
          qed
        qed
      qed
    qed
  qed
qed

lemma send_shape:
  obtains
    (rejected) m t where
      "send c s = socketError (sc_socket c) m (s\<lparr>messageRateLimit := t\<rparr>)"
  | (partial) e m t where
      "send c s = socketError (sc_socket c) (FailedToSend (message e))
                    (s\<lparr>messageRateLimit := t,
                       db := (db s)\<lparr>messages := messages (db s) @ [m]\<rparr>\<rparr>)"
      "sc_fault c AtFindById = None" "sc_fault c AtCreate = None"
  | (stored) m conv i t where
      "send c s = fold (\<lambda>other. emit (ToRoom (userRoom other))
                                   (MessageNotification (sc_conversationId c) m))
              (filter (\<lambda>x. x \<noteq> userId (sc_socket c)) (users conv))
              (emit (ToRoom (conversationRoom (sc_conversationId c)))
                 (NewMessage m (sc_conversationId c))
                 (s\<lparr>messageRateLimit := t,
                    db := (db s)\<lparr>messages := messages (db s) @ [m],
                        conversations :=
                          map (\<lambda>x. if conv_id x = i
                                    then x\<lparr>lastMessage := Some (msg_id m),
                                           lastMessageAt := Some (sc_now c)\<rparr>
                                    else x) (conversations (db s))\<rparr>\<rparr>))"
      "conversation m = i"
      "find (\<lambda>x. conv_id x = i) (conversations (db s)) = Some conv"
      "\<forall>p\<in>set persistencePoints. sc_fault c p = None"
proof -
  have same: "s\<lparr>messageRateLimit := messageRateLimit s\<rparr> = s" by simp
  show ?thesis
  proof (cases "sc_content c = [] \<or> trim (sc_content c) = [] \<or> length (sc_content c) > 5000")
    case True
    then have "\<exists>m. send c s = socketError (sc_socket c) m (s\<lparr>messageRateLimit := messageRateLimit s\<rparr>)"
      unfolding same by (auto simp: send_def send_message_def)
    then show ?thesis using rejected by blast
  next
    case sized: False
    show ?thesis
    proof (cases "rateLimit (messageRateLimit s) (userId (sc_socket c)) (sc_now c)")
      case None
      then have "send c s = socketError (sc_socket c) TooManyMessages (s\<lparr>messageRateLimit := messageRateLimit s\<rparr>)"
        unfolding same using sized by (simp add: send_def send_message_def)
      then show ?thesis using rejected by blast
    next
      case (Some t)
      let ?s1 = "s\<lparr>messageRateLimit := t\<rparr>"
      show ?thesis
      proof (cases "regexTest urlPattern (sc_content c) \<or> regexTest phonePattern (sc_content c)")
        case True
        then have "\<exists>m. send c s = socketError (sc_socket c) m ?s1"
          using sized Some by (auto simp: send_def send_message_def Let_def)
        then show ?thesis using rejected by blast
      next
        case clean: False
        have snd: "send c s =
            (case persistAndBroadcast (sc_socket c) (sc_conversationId c) (sc_content c)
                    (sc_now c) (sc_newId c) (sc_fault c) ?s1 of
               (s2, Some e) \<Rightarrow> socketError (sc_socket c) (FailedToSend (message e)) s2
             | (s2, None) \<Rightarrow> s2)"
          using sized Some clean by (simp add: send_def send_message_def Let_def)
        show ?thesis
        proof (cases rule: persist_outcomes [of "sc_socket c" "sc_conversationId c" "sc_content c"
                 "sc_now c" "sc_newId c" "sc_fault c" ?s1])
          case (thrown e)
          then show ?thesis using snd rejected by simp
        next
          case (refused m)
          then have "send c s = socketError (sc_socket c) m ?s1" using snd by simp
          then show ?thesis using rejected by blast
        next
          case (partial e m)
          then have "send c s = socketError (sc_socket c) (FailedToSend (message e))
                    (s\<lparr>messageRateLimit := t,
                       db := (db s)\<lparr>messages := messages (db s) @ [m]\<rparr>\<rparr>)"
            using snd by simp
          then show ?thesis using partial(2,3) that(2) by blast
        next
          case (stored m conv i)
          then have "send c s = fold (\<lambda>other. emit (ToRoom (userRoom other))
                                   (MessageNotification (sc_conversationId c) m))
              (filter (\<lambda>x. x \<noteq> userId (sc_socket c)) (users conv))
              (emit (ToRoom (conversationRoom (sc_conversationId c)))
                 (NewMessage m (sc_conversationId c))
                 (s\<lparr>messageRateLimit := t,
                    db := (db s)\<lparr>messages := messages (db s) @ [m],
                        conversations :=
                          map (\<lambda>x. if conv_id x = i
                                    then x\<lparr>lastMessage := Some (msg_id m),
                                           lastMessageAt := Some (sc_now c)\<rparr>
                                    else x) (conversations (db s))\<rparr>\<rparr>))"
            using snd by simp
          moreover have "find (\<lambda>x. conv_id x = i) (conversations (db s)) = Some conv"
            using stored(4) by simp
          ultimately show ?thesis using stored(3,5) that(3) by blast
        qed
      qed
    qed
  qed
qed

lemma persist_partial:
  assumes i: "castObjectId cid = Some i"
    and conv: "find (\<lambda>c. conv_id c = i) (conversations (db s)) = Some conv"
    and mem: "userId sock \<in> set (users conv)"
    and u: "castObjectId (userId sock) = Some (userId sock)"
    and t: "trim text \<noteq> []" "length text \<le> 5000"
    and m: "m = \<lparr>msg_id = newId, conversation = i, sender = userId sock, content = trim text,
                 isRead = False, readAt = None, msg_createdAt = now\<rparr>"
    and f: "fault AtFindById = None" "fault AtCreate = None"
      "fault AtPopulate = Some e \<or> (fault AtPopulate = None \<and> fault AtSave = Some e)"
  shows "persistAndBroadcast sock cid text now newId fault s
           = (s\<lparr>db := (db s)\<lparr>messages := messages (db s) @ [m]\<rparr>\<rparr>, Some e)"
proof -
  have fb: "Conversation_findById None (db s) cid = Inr (Some conv)"
    by (simp add: Conversation_findById_def i conv)
  note mc = Message_create_ok [OF i u t, of "db s" now newId]
  have sv: "Conversation_save (Some e) st' c' = Inl e" for st' c'
    by (simp add: Conversation_save_def)
  from f(3) show ?thesis
    by (auto simp: persistAndBroadcast_def f(1,2) fb mem mc m sv)
qed

lemma send_partial:
  assumes adm: "admissible (db s) u c" and u: "castObjectId u = Some u"
    and rl: "rateLimit (messageRateLimit s) u (sc_now c) = Some table"
    and f: "sc_fault c AtFindById = None" "sc_fault c AtCreate = None"
      "sc_fault c AtPopulate = Some e \<or> (sc_fault c AtPopulate = None \<and> sc_fault c AtSave = Some e)"
  shows "\<exists>i. castObjectId (sc_conversationId c) = Some i
           \<and> send c s = socketError (sc_socket c) (FailedToSend (message e))
               (s\<lparr>messageRateLimit := table,
                  db := (db s)\<lparr>messages := messages (db s) @
                    [\<lparr>msg_id = sc_newId c, conversation = i, sender = u,
                      content = trim (sc_content c), isRead = False, readAt = None,
                      msg_createdAt = sc_now c\<rparr>]\<rparr>\<rparr>)"
proof -
  from adm have uid: "userId (sc_socket c) = u" and ws: "wellSized (sc_content c)"
    and pc: "policyClean (sc_content c)"
    and part: "participant (db s) (sc_conversationId c) u"
    by (auto simp: admissible_def)
  from part obtain i conv where i: "castObjectId (sc_conversationId c) = Some i"
    and conv: "find (\<lambda>c. conv_id c = i) (conversations (db s)) = Some conv"
    and mem: "u \<in> set (users conv)"
    by (auto simp: participant_def split: option.splits)
  let ?s1 = "s\<lparr>messageRateLimit := table\<rparr>"
  let ?m = "\<lparr>msg_id = sc_newId c, conversation = i, sender = userId (sc_socket c),
             content = trim (sc_content c), isRead = False, readAt = None,
             msg_createdAt = sc_now c\<rparr>"
  have conv1: "find (\<lambda>c. conv_id c = i) (conversations (db ?s1)) = Some conv" using conv by simp
  have mem1: "userId (sc_socket c) \<in> set (users conv)" using mem uid by simp
  have u1: "castObjectId (userId (sc_socket c)) = Some (userId (sc_socket c))" using u uid by simp
  have t: "trim (sc_content c) \<noteq> []" "length (sc_content c) \<le> 5000"
    using ws by (auto simp: wellSized_def)
  note pp = persist_partial [OF i conv1 mem1 u1 t refl f]
  have "send c s = socketError (sc_socket c) (FailedToSend (message e))
               (?s1\<lparr>db := (db ?s1)\<lparr>messages := messages (db ?s1) @ [?m]\<rparr>\<rparr>)"
    using ws pc rl uid pp
    by (simp add: send_def send_message_def wellSized_def policyClean_def)
  then show ?thesis using i uid by simp
qed

text \<open>
  Claim C7, as the code has it. A broadcast to a room happens only in a run that has
  inserted the message and saved the conversation's \<open>lastMessage\<close> and
  \<open>lastMessageAt\<close>. A run in which the store fails at any point sends exactly one
  event, an error to the sender, and broadcasts nothing. When the lookup or the insert
  fails the store is unchanged; when the insert succeeds and the populate or the save
  of the conversation then fails, the message stays in the store and the conversation
  keeps its old \<open>lastMessage\<close> and \<open>lastMessageAt\<close>.
\<close>

theorem send_failure_semantics:
  "(list_ex isBroadcast (newEvents s (send c s)) \<longrightarrow>
      (\<exists>m conv. messages (db (send c s)) = messages (db s) @ [m]
         \<and> find (\<lambda>x. conv_id x = conversation m) (conversations (db (send c s))) = Some conv
         \<and> lastMessage conv = Some (msg_id m) \<and> lastMessageAt conv = Some (sc_now c)
         \<and> hd (newEvents s (send c s))
             = (ToRoom (conversationRoom (sc_conversationId c)),
                NewMessage m (sc_conversationId c))))
   \<and> (list_ex (\<lambda>p. sc_fault c p \<noteq> None) persistencePoints \<longrightarrow>
        (\<exists>m. newEvents s (send c s) = [(ToSocket (socket_id (sc_socket c)), ErrorEvent m)]))
   \<and> (sc_fault c AtFindById \<noteq> None \<or> sc_fault c AtCreate \<noteq> None \<longrightarrow> db (send c s) = db s)
   \<and> (admissible (db s) u c \<and> castObjectId u = Some u
        \<and> rateLimit (messageRateLimit s) u (sc_now c) = Some table
        \<and> sc_fault c AtFindById = None \<and> sc_fault c AtCreate = None
        \<and> (sc_fault c AtPopulate = Some e
            \<or> (sc_fault c AtPopulate = None \<and> sc_fault c AtSave = Some e)) \<longrightarrow>
        (\<exists>m. messages (db (send c s)) = messages (db s) @ [m]
           \<and> content m = trim (sc_content c)
           \<and> conversations (db (send c s)) = conversations (db s)
           \<and> newEvents s (send c s)
               = [(ToSocket (socket_id (sc_socket c)), ErrorEvent (FailedToSend (message e)))]))"
proof -
  have A: "list_ex isBroadcast (newEvents s (send c s)) \<longrightarrow>
      (\<exists>m conv. messages (db (send c s)) = messages (db s) @ [m]
         \<and> find (\<lambda>x. conv_id x = conversation m) (conversations (db (send c s))) = Some conv
         \<and> lastMessage conv = Some (msg_id m) \<and> lastMessageAt conv = Some (sc_now c)
         \<and> hd (newEvents s (send c s))
             = (ToRoom (conversationRoom (sc_conversationId c)),
                NewMessage m (sc_conversationId c)))"
  proof (cases rule: send_shape [of c s])
    case (rejected m t)
    then show ?thesis by (simp add: newEvents_def isBroadcast_def)
  next
    case (partial e m t)
    then show ?thesis by (simp add: newEvents_def isBroadcast_def)
  next
    case (stored m conv i t)
    let ?g = "\<lambda>x. if conv_id x = i
                 then x\<lparr>lastMessage := Some (msg_id m), lastMessageAt := Some (sc_now c)\<rparr>
                 else x"
    have "find (\<lambda>x. conv_id x = i) (map ?g (conversations (db s)))
            = map_option ?g (find (\<lambda>x. conv_id x = i) (conversations (db s)))"
      by (rule find_map_preserved) simp
    moreover have "conv_id conv = i" using stored(3) by (auto simp: find_Some_iff)
    ultimately have "find (\<lambda>x. conv_id x = i) (map ?g (conversations (db s)))
            = Some (conv\<lparr>lastMessage := Some (msg_id m), lastMessageAt := Some (sc_now c)\<rparr>)"
      using stored(3) by simp
    then show ?thesis using stored(1,2)
      by (simp add: newEvents_def emitted_fold)
  qed
  have B: "list_ex (\<lambda>p. sc_fault c p \<noteq> None) persistencePoints \<longrightarrow>
        (\<exists>m. newEvents s (send c s) = [(ToSocket (socket_id (sc_socket c)), ErrorEvent m)])"
  proof (cases rule: send_shape [of c s])
    case (rejected m t)
    then show ?thesis by (simp add: newEvents_def)
  next
    case (partial e m t)
    then show ?thesis by (simp add: newEvents_def)
  next
    case (stored m conv i t)
    then show ?thesis by (auto simp: list_ex_iff)
  qed
  have C: "sc_fault c AtFindById \<noteq> None \<or> sc_fault c AtCreate \<noteq> None \<longrightarrow> db (send c s) = db s"
  proof (cases rule: send_shape [of c s])
    case (rejected m t)
    then show ?thesis by simp
  next
    case (partial e m t)
    then show ?thesis by simp
  next
    case (stored m conv i t)
    then show ?thesis by (simp add: persistencePoints_def)
  qed
  have D: "admissible (db s) u c \<and> castObjectId u = Some u
        \<and> rateLimit (messageRateLimit s) u (sc_now c) = Some table
        \<and> sc_fault c AtFindById = None \<and> sc_fault c AtCreate = None
        \<and> (sc_fault c AtPopulate = Some e
            \<or> (sc_fault c AtPopulate = None \<and> sc_fault c AtSave = Some e)) \<longrightarrow>
        (\<exists>m. messages (db (send c s)) = messages (db s) @ [m]
           \<and> content m = trim (sc_content c)
           \<and> conversations (db (send c s)) = conversations (db s)
           \<and> newEvents s (send c s)
               = [(ToSocket (socket_id (sc_socket c)), ErrorEvent (FailedToSend (message e)))])"
  proof (intro impI, elim conjE)
    assume "admissible (db s) u c" "castObjectId u = Some u"
      "rateLimit (messageRateLimit s) u (sc_now c) = Some table"
      "sc_fault c AtFindById = None" "sc_fault c AtCreate = None"
      "sc_fault c AtPopulate = Some e \<or> (sc_fault c AtPopulate = None \<and> sc_fault c AtSave = Some e)"
    from send_partial [OF this] obtain i where
      "send c s = socketError (sc_socket c) (FailedToSend (message e))
               (s\<lparr>messageRateLimit := table,
                  db := (db s)\<lparr>messages := messages (db s) @
                    [\<lparr>msg_id = sc_newId c, conversation = i, sender = u,
                      content = trim (sc_content c), isRead = False, readAt = None,
                      msg_createdAt = sc_now c\<rparr>]\<rparr>\<rparr>)"
      by blast
    then show "\<exists>m. messages (db (send c s)) = messages (db s) @ [m]
           \<and> content m = trim (sc_content c)
           \<and> conversations (db (send c s)) = conversations (db s)
           \<and> newEvents s (send c s)
               = [(ToSocket (socket_id (sc_socket c)), ErrorEvent (FailedToSend (message e)))]"
      by (simp add: newEvents_def)
  qed
  from A B C D show ?thesis by (intro conjI)
qed

lemma demo_failing_send:
  "send demoFailingCall demoServer
     = socketError (demoSocket demoA) (FailedToSend ''connection lost'')
         (demoServer\<lparr>messageRateLimit := demoTable,
            db := demoStore\<lparr>messages := [demoHello]\<rparr>\<rparr>)"
proof -
  have adm: "admissible (db demoServer) demoA demoFailingCall"
    by (simp add: admissible_def demoFailingCall_def demoCall_def demoSocket_def demo_hello
          demo_participant demoServer_def)
  have rl: "rateLimit (messageRateLimit demoServer) demoA (sc_now demoFailingCall) = Some demoTable"
    using demo_rateLimit_first [of "''hello''"] by (simp add: demoFailingCall_def demoCall_def)
  have f: "sc_fault demoFailingCall AtFindById = None" "sc_fault demoFailingCall AtCreate = None"
    "sc_fault demoFailingCall AtPopulate = Some (Exn None ''connection lost'')
     \<or> (sc_fault demoFailingCall AtPopulate = None
         \<and> sc_fault demoFailingCall AtSave = Some (Exn None ''connection lost''))"
    by (simp_all add: demoFailingCall_def demoSaveFails_def)
  have t: "trim ''hello'' = ''hello''" by code_simp
  from send_partial [OF adm demo_ids(1) rl f]
  show ?thesis
    by (simp add: demoFailingCall_def demoCall_def demoHello_def demo_ids t demoServer_def
          demoStore_def)
qed

text \<open>
  Claim C7 as stated fails: the save of the conversation fails after the message was
  inserted, and the message stays in the store while the conversation's
  \<open>lastMessage\<close> and \<open>lastMessageAt\<close> are still empty.
\<close>

theorem orphaned_message_counterexample:
  "sc_fault demoFailingCall AtSave = Some (Exn None ''connection lost'')
   \<and> messages (db demoServer) = []
   \<and> messages (db (send demoFailingCall demoServer)) = [demoHello]
   \<and> conversations (db (send demoFailingCall demoServer)) = [demoConv]
   \<and> lastMessage demoConv = None \<and> lastMessageAt demoConv = None
   \<and> conversation demoHello = conv_id demoConv"
proof -
  have 1: "sc_fault demoFailingCall AtSave = Some (Exn None ''connection lost'')"
    by (simp add: demoFailingCall_def demoSaveFails_def)
  have 2: "messages (db (send demoFailingCall demoServer)) = [demoHello]
         \<and> conversations (db (send demoFailingCall demoServer)) = [demoConv]"
    by (simp add: demo_failing_send demoStore_def)
  have 3: "messages (db demoServer) = [] \<and> lastMessage demoConv = None
         \<and> lastMessageAt demoConv = None \<and> conversation demoHello = conv_id demoConv"
    by (simp add: demoServer_def demoStore_def demoConv_def demoHello_def)
  from 1 2 3 show ?thesis by (intro conjI) simp_all
qed

text \<open>
  The greeting whose conversation cannot be saved, next to the same greeting with no
  failure.
\<close>

theorem send_failure_semantics_witness:
  "list_ex (\<lambda>p. sc_fault demoFailingCall p \<noteq> None) persistencePoints
   \<and> admissible (db demoServer) demoA demoFailingCall
   \<and> newEvents demoServer (send demoFailingCall demoServer)
       = [(ToSocket (socket_id (demoSocket demoA)), ErrorEvent (FailedToSend ''connection lost''))]
   \<and> map content (messages (db (send demoFailingCall demoServer))) = [''hello'']
   \<and> \<not> list_ex isBroadcast (newEvents demoServer (send demoFailingCall demoServer))
   \<and> list_ex isBroadcast (newEvents demoServer (send (demoCall demoA ''hello'' 0) demoServer))
   \<and> map lastMessage (conversations (db (send (demoCall demoA ''hello'' 0) demoServer)))
       = [Some (demoMsgId 0)]"
proof -
  have h1: "list_ex (\<lambda>p. sc_fault demoFailingCall p \<noteq> None) persistencePoints"
    by (simp add: persistencePoints_def demoFailingCall_def demoSaveFails_def)
  have adm: "admissible (db demoServer) demoA demoFailingCall"
    by (simp add: admissible_def demoFailingCall_def demoCall_def demoSocket_def demo_hello
          demo_participant demoServer_def)
  have rl: "rateLimit (messageRateLimit demoServer) demoA (sc_now demoFailingCall) = Some demoTable"
    using demo_rateLimit_first [of "''hello''"] by (simp add: demoFailingCall_def demoCall_def)
  have f: "sc_fault demoFailingCall AtFindById = None \<and> sc_fault demoFailingCall AtCreate = None
    \<and> (sc_fault demoFailingCall AtPopulate = Some (Exn None ''connection lost'')
     \<or> (sc_fault demoFailingCall AtPopulate = None
         \<and> sc_fault demoFailingCall AtSave = Some (Exn None ''connection lost'')))"
    by (simp_all add: demoFailingCall_def demoSaveFails_def)
  have t: "trim ''hello'' = ''hello''" by code_simp
  have cont: "sc_content demoFailingCall = ''hello''"
    and sock: "sc_socket demoFailingCall = demoSocket demoA"
    by (simp_all add: demoFailingCall_def demoCall_def)
  note main = send_failure_semantics [of demoServer demoFailingCall demoA demoTable
      "Exn None ''connection lost''"]
  from main [THEN conjunct2, THEN conjunct2, THEN conjunct2] adm demo_ids(1) rl f
  obtain m where m: "messages (db (send demoFailingCall demoServer)) = messages (db demoServer) @ [m]"
    "content m = trim (sc_content demoFailingCall)"
    "newEvents demoServer (send demoFailingCall demoServer)
       = [(ToSocket (socket_id (sc_socket demoFailingCall)),
           ErrorEvent (FailedToSend (message (Exn None ''connection lost''))))]"
    by blast
  have c1: "newEvents demoServer (send demoFailingCall demoServer)
       = [(ToSocket (socket_id (demoSocket demoA)), ErrorEvent (FailedToSend ''connection lost''))]"
    using m(3) by (simp add: sock)
  have c2: "map content (messages (db (send demoFailingCall demoServer))) = [''hello'']"
    using m(1,2) by (simp add: cont t demoServer_def demoStore_def)
  have c3: "\<not> list_ex isBroadcast (newEvents demoServer (send demoFailingCall demoServer))"
    unfolding c1 by (simp add: isBroadcast_def)
  let ?ok = "demoCall demoA ''hello'' 0"
  have acc: "acceptable (db demoServer) demoA ?ok" by (simp add: demoServer_def demo_acceptable)
  from send_accepted_full [OF acc demo_ids(1) demo_rateLimit_first]
  have c4: "list_ex isBroadcast (newEvents demoServer (send ?ok demoServer))"
    by (auto simp: isBroadcast_def)
  from send_failure_semantics [of demoServer ?ok, THEN conjunct1] c4
  obtain m' conv where ok: "messages (db (send ?ok demoServer)) = messages (db demoServer) @ [m']"
    "find (\<lambda>x. conv_id x = conversation m') (conversations (db (send ?ok demoServer))) = Some conv"
    "lastMessage conv = Some (msg_id m')"
    "hd (newEvents demoServer (send ?ok demoServer))
       = (ToRoom (conversationRoom (sc_conversationId ?ok)), NewMessage m' (sc_conversationId ?ok))"
    by blast
  from send_accepted_full [OF acc demo_ids(1) demo_rateLimit_first]
  have c5: "map lastMessage (conversations (db (send ?ok demoServer))) = [Some (demoMsgId 0)]"
    by (auto simp: demoServer_def demoStore_def demoConv_def demoCall_def demo_ids)
  from h1 adm c1 c2 c3 c4 c5 show ?thesis by (intro conjI)
qed

lemma outsider_findById:
  "outsider st cid uid \<Longrightarrow>
     \<exists>conv. Conversation_findById None st cid = Inr (Some conv) \<and> uid \<notin> set (users conv)"
  by (auto simp: outsider_def Conversation_findById_def split: option.splits)

lemma missing_findById: "missing st cid \<Longrightarrow> Conversation_findById None st cid = Inr None"
  by (auto simp: missing_def Conversation_findById_def split: option.splits)

lemma outsider_not_participant: "outsider st cid uid \<Longrightarrow> \<not> participant st cid uid"
  by (auto simp: outsider_def participant_def split: option.splits)

lemma missing_not_participant: "missing st cid \<Longrightarrow> \<not> participant st cid uid"
  by (auto simp: missing_def participant_def split: option.splits)

lemma join_fails:
  assumes "\<not> participant (db s) cid (userId sock)"
  shows "\<exists>m. join_conversation sock cid fault s = socketError sock m s"
  using assms
  by (auto simp: join_conversation_def participant_def Conversation_findById_def
           split: option.splits)

lemma mark_read_fails:
  assumes "\<not> participant (db s) cid (userId sock)"
  shows "\<exists>m. mark_read sock cid now fault s = socketError sock m s"
  using assms
  by (auto simp: mark_read_def participant_def Conversation_findById_def
           split: option.splits)

lemma markMessagesAsRead_fails:
  assumes "\<not> participant st cid u"
  shows "\<exists>m n. markMessagesAsRead u cid now fault st = (st, ErrorResponse m n)"
  using assms
  by (auto simp: markMessagesAsRead_def participant_def Conversation_findById_def
           internalError_def split: option.splits)

lemma send_fails:
  assumes "\<not> participant (db s) (sc_conversationId c) (userId (sc_socket c))"
  shows "\<exists>m t. send c s = socketError (sc_socket c) m (s\<lparr>messageRateLimit := t\<rparr>)"
proof -
  have same: "s\<lparr>messageRateLimit := messageRateLimit s\<rparr> = s" by simp
  show ?thesis
  proof (cases "wellSized (sc_content c)")
    case False
    then have "\<exists>m. send c s = socketError (sc_socket c) m (s\<lparr>messageRateLimit := messageRateLimit s\<rparr>)"
      unfolding same by (auto simp: send_def send_message_def wellSized_def)
    then show ?thesis by blast
  next
    case ws: True
    show ?thesis
    proof (cases "rateLimit (messageRateLimit s) (userId (sc_socket c)) (sc_now c)")
      case None
      then have "send c s = socketError (sc_socket c) TooManyMessages (s\<lparr>messageRateLimit := messageRateLimit s\<rparr>)"
        unfolding same using ws send_rate_limited [of "sc_content c" s "sc_socket c" "sc_now c"]
        by (simp add: send_def)
      then show ?thesis by blast
    next
      case (Some table)
      have "refused (db s) c" using assms by (simp add: refused_def)
      from send_refused [OF ws this Some] show ?thesis by blast
    qed
  qed
qed

lemma send_reaches_lookup:
  assumes "wellSized (sc_content c)" and "policyClean (sc_content c)"
    and "rateLimit (messageRateLimit s) (userId (sc_socket c)) (sc_now c) = Some table"
    and "sc_fault c AtFindById = None"
  shows "outsider (db s) (sc_conversationId c) (userId (sc_socket c)) \<Longrightarrow>
           send c s = socketError (sc_socket c) AccessDenied (s\<lparr>messageRateLimit := table\<rparr>)"
    and "missing (db s) (sc_conversationId c) \<Longrightarrow>
           send c s = socketError (sc_socket c) ConversationNotFound (s\<lparr>messageRateLimit := table\<rparr>)"
proof -
  assume "outsider (db s) (sc_conversationId c) (userId (sc_socket c))"
  from outsider_findById [OF this] show
    "send c s = socketError (sc_socket c) AccessDenied (s\<lparr>messageRateLimit := table\<rparr>)"
    using assms
    by (auto simp: send_def send_message_def persistAndBroadcast_def wellSized_def
          policyClean_def)
next
  assume "missing (db s) (sc_conversationId c)"
  from missing_findById [OF this] show
    "send c s = socketError (sc_socket c) ConversationNotFound (s\<lparr>messageRateLimit := table\<rparr>)"
    using assms
    by (auto simp: send_def send_message_def persistAndBroadcast_def wellSized_def
          policyClean_def)
qed

lemma malformed_findById:
  "castObjectId cid = None \<Longrightarrow> Conversation_findById None st cid = Inl CastError"
  by (simp add: Conversation_findById_def)

lemma send_content_errors:
  shows "sc_content c = [] \<or> trim (sc_content c) = [] \<Longrightarrow>
           send c s = socketError (sc_socket c) ContentEmpty s"
    and "sc_content c \<noteq> [] \<Longrightarrow> trim (sc_content c) \<noteq> [] \<Longrightarrow> length (sc_content c) > 5000 \<Longrightarrow>
           send c s = socketError (sc_socket c) ContentTooLong s"
    and "wellSized (sc_content c) \<Longrightarrow>
         rateLimit (messageRateLimit s) (userId (sc_socket c)) (sc_now c) = None \<Longrightarrow>
           send c s = socketError (sc_socket c) TooManyMessages s"
  by (auto simp: send_def send_message_def wellSized_def)

lemma send_policy_errors:
  assumes "wellSized (sc_content c)"
    and "rateLimit (messageRateLimit s) (userId (sc_socket c)) (sc_now c) = Some table"
  shows "regexTest urlPattern (sc_content c) \<Longrightarrow>
           send c s = socketError (sc_socket c) LinkNotAllowed (s\<lparr>messageRateLimit := table\<rparr>)"
    and "\<not> regexTest urlPattern (sc_content c) \<Longrightarrow> regexTest phonePattern (sc_content c) \<Longrightarrow>
           send c s = socketError (sc_socket c) PhoneNotAllowed (s\<lparr>messageRateLimit := table\<rparr>)"
  using assms by (auto simp: send_def send_message_def wellSized_def Let_def)

lemma send_malformed:
  assumes "wellSized (sc_content c)" and "policyClean (sc_content c)"
    and "rateLimit (messageRateLimit s) (userId (sc_socket c)) (sc_now c) = Some table"
    and "sc_fault c AtFindById = None"
    and "castObjectId (sc_conversationId c) = None"
  shows "send c s = socketError (sc_socket c) (FailedToSend (message CastError))
                      (s\<lparr>messageRateLimit := table\<rparr>)"
  using assms malformed_findById [OF assms(5), of "db s"]
  by (auto simp: send_def send_message_def persistAndBroadcast_def wellSized_def
        policyClean_def)

lemma rateLimit_advances:
  assumes "rateLimit m u now = Some table"
  shows "table u \<noteq> m u" and "\<exists>d. table u = Some d \<and> 1 \<le> count d"
proof -
  show "table u \<noteq> m u"
  proof (cases "m u")
    case None
    with assms show ?thesis by (auto simp: rateLimit_def)
  next
    case (Some d)
    show ?thesis
    proof (cases "now < resetTime d")
      case True
      with assms Some have "table u = Some (d\<lparr>count := count d + 1\<rparr>)"
        by (auto simp: rateLimit_def split: if_splits)
      moreover have "d\<lparr>count := count d + 1\<rparr> \<noteq> d"
      proof
        assume "d\<lparr>count := count d + 1\<rparr> = d"
        then have "count (d\<lparr>count := count d + 1\<rparr>) = count d" by simp
        then show False by simp
      qed
      ultimately show ?thesis using Some by simp
    next
      case False
      with assms Some have t: "table u = Some \<lparr>count = 1, resetTime = now + 60000\<rparr>"
        by (auto simp: rateLimit_def)
      have "\<lparr>count = 1, resetTime = now + 60000\<rparr> \<noteq> d"
      proof
        assume "\<lparr>count = 1, resetTime = now + 60000\<rparr> = d"
        then have "resetTime d = now + 60000" by auto
        with False show False by simp
      qed
      with t Some show ?thesis by simp
    qed
  qed
  show "\<exists>d. table u = Some d \<and> 1 \<le> count d"
    using assms by (auto simp: rateLimit_def split: option.splits if_splits)
qed

text \<open>
  Claim C6, as the code has it. A user who is not a participant can never join, send
  or mark as read: each attempt leaves the store and the rooms as they were and sends
  one error event to the caller alone. Join and markRead (socket and REST) answer
  "access denied" when the conversation exists and the caller is no participant,
  "not found" when the identifier is well formed and references no conversation, and
  the general failure of the handler (status 500 for the REST method) when the
  identifier is malformed; they change nothing. Send runs its other checks first and
  answers with their errors: the content error for empty content, the length error for
  content that is too long, the rate-limit error when the window is full, then the link
  error or the phone error, in this order. From the rate limit on, the sender's rate
  counter has advanced although the send is refused. Only a send that passes all these
  checks reaches the lookup, and is answered "access denied", "not found", or, for a
  malformed identifier, with the general failure of the handler.
\<close>

theorem membership_enforcement:
  "(\<not> participant (db s) cid (userId sock) \<longrightarrow>
      (\<exists>m. join_conversation sock cid fault s = socketError sock m s)
      \<and> (\<exists>m. mark_read sock cid now fault s = socketError sock m s)
      \<and> (\<exists>m n. markMessagesAsRead (userId sock) cid now fault (db s) = (db s, ErrorResponse m n)))
   \<and> (\<not> participant (db s) (sc_conversationId c) (userId (sc_socket c)) \<longrightarrow>
        (\<exists>m t. send c s = socketError (sc_socket c) m (s\<lparr>messageRateLimit := t\<rparr>)))
   \<and> (outsider (db s) cid (userId sock) \<and> fault AtFindById = None \<longrightarrow>
        join_conversation sock cid fault s = socketError sock AccessDenied s
        \<and> mark_read sock cid now fault s = socketError sock AccessDenied s
        \<and> (userId sock \<noteq> [] \<longrightarrow>
             markMessagesAsRead (userId sock) cid now fault (db s)
               = (db s, ErrorResponse ''Access denied. You are not part of this conversation'' 403)))
   \<and> (missing (db s) cid \<and> fault AtFindById = None \<longrightarrow>
        join_conversation sock cid fault s = socketError sock ConversationNotFound s
        \<and> mark_read sock cid now fault s = socketError sock ConversationNotFound s
        \<and> (userId sock \<noteq> [] \<longrightarrow>
             markMessagesAsRead (userId sock) cid now fault (db s)
               = (db s, ErrorResponse ''Conversation not found'' 404)))
   \<and> (castObjectId cid = None \<and> fault AtFindById = None \<longrightarrow>
        join_conversation sock cid fault s = socketError sock FailedToJoin s
        \<and> mark_read sock cid now fault s = socketError sock FailedToMarkRead s
        \<and> (userId sock \<noteq> [] \<longrightarrow>
             (\<exists>m. markMessagesAsRead (userId sock) cid now fault (db s)
                    = (db s, ErrorResponse m 500))))
   \<and> (sc_content c = [] \<or> trim (sc_content c) = [] \<longrightarrow>
        send c s = socketError (sc_socket c) ContentEmpty s)
   \<and> (sc_content c \<noteq> [] \<and> trim (sc_content c) \<noteq> [] \<and> length (sc_content c) > 5000 \<longrightarrow>
        send c s = socketError (sc_socket c) ContentTooLong s)
   \<and> (wellSized (sc_content c)
        \<and> rateLimit (messageRateLimit s) (userId (sc_socket c)) (sc_now c) = None \<longrightarrow>
        send c s = socketError (sc_socket c) TooManyMessages s)
   \<and> (wellSized (sc_content c)
        \<and> rateLimit (messageRateLimit s) (userId (sc_socket c)) (sc_now c) = Some table \<longrightarrow>
        table (userId (sc_socket c)) \<noteq> messageRateLimit s (userId (sc_socket c))
        \<and> (regexTest urlPattern (sc_content c) \<longrightarrow>
             send c s = socketError (sc_socket c) LinkNotAllowed (s\<lparr>messageRateLimit := table\<rparr>))
        \<and> (\<not> regexTest urlPattern (sc_content c) \<and> regexTest phonePattern (sc_content c) \<longrightarrow>
             send c s = socketError (sc_socket c) PhoneNotAllowed (s\<lparr>messageRateLimit := table\<rparr>)))
   \<and> (wellSized (sc_content c) \<and> policyClean (sc_content c)
        \<and> rateLimit (messageRateLimit s) (userId (sc_socket c)) (sc_now c) = Some table
        \<and> sc_fault c AtFindById = None \<longrightarrow>
        (outsider (db s) (sc_conversationId c) (userId (sc_socket c)) \<longrightarrow>
           send c s = socketError (sc_socket c) AccessDenied (s\<lparr>messageRateLimit := table\<rparr>))
        \<and> (missing (db s) (sc_conversationId c) \<longrightarrow>
           send c s = socketError (sc_socket c) ConversationNotFound
                        (s\<lparr>messageRateLimit := table\<rparr>))
        \<and> (castObjectId (sc_conversationId c) = None \<longrightarrow>
           (\<exists>m. send c s = socketError (sc_socket c) (FailedToSend m)
                             (s\<lparr>messageRateLimit := table\<rparr>))))"
proof -
  have A: "\<not> participant (db s) cid (userId sock) \<longrightarrow>
      (\<exists>m. join_conversation sock cid fault s = socketError sock m s)
      \<and> (\<exists>m. mark_read sock cid now fault s = socketError sock m s)
      \<and> (\<exists>m n. markMessagesAsRead (userId sock) cid now fault (db s) = (db s, ErrorResponse m n))"
    using join_fails mark_read_fails markMessagesAsRead_fails by blast
  have B: "\<not> participant (db s) (sc_conversationId c) (userId (sc_socket c)) \<longrightarrow>
        (\<exists>m t. send c s = socketError (sc_socket c) m (s\<lparr>messageRateLimit := t\<rparr>))"
    using send_fails by blast
  have C: "outsider (db s) cid (userId sock) \<and> fault AtFindById = None \<longrightarrow>
        join_conversation sock cid fault s = socketError sock AccessDenied s
        \<and> mark_read sock cid now fault s = socketError sock AccessDenied s
        \<and> (userId sock \<noteq> [] \<longrightarrow>
             markMessagesAsRead (userId sock) cid now fault (db s)
               = (db s, ErrorResponse ''Access denied. You are not part of this conversation'' 403))"
    using outsider_findById [of "db s" cid "userId sock"]
    by (auto simp: join_conversation_def mark_read_def markMessagesAsRead_def)
  have D: "missing (db s) cid \<and> fault AtFindById = None \<longrightarrow>
        join_conversation sock cid fault s = socketError sock ConversationNotFound s
        \<and> mark_read sock cid now fault s = socketError sock ConversationNotFound s
        \<and> (userId sock \<noteq> [] \<longrightarrow>
             markMessagesAsRead (userId sock) cid now fault (db s)
               = (db s, ErrorResponse ''Conversation not found'' 404))"
    using missing_findById [of "db s" cid]
    by (auto simp: join_conversation_def mark_read_def markMessagesAsRead_def)
  have M: "castObjectId cid = None \<and> fault AtFindById = None \<longrightarrow>
        join_conversation sock cid fault s = socketError sock FailedToJoin s
        \<and> mark_read sock cid now fault s = socketError sock FailedToMarkRead s
        \<and> (userId sock \<noteq> [] \<longrightarrow>
             (\<exists>m. markMessagesAsRead (userId sock) cid now fault (db s)
                    = (db s, ErrorResponse m 500)))"
    using malformed_findById [of cid "db s"]
    by (auto simp: join_conversation_def mark_read_def markMessagesAsRead_def internalError_def)
  have S1: "sc_content c = [] \<or> trim (sc_content c) = [] \<longrightarrow>
        send c s = socketError (sc_socket c) ContentEmpty s"
    using send_content_errors(1) by blast
  have S2: "sc_content c \<noteq> [] \<and> trim (sc_content c) \<noteq> [] \<and> length (sc_content c) > 5000 \<longrightarrow>
        send c s = socketError (sc_socket c) ContentTooLong s"
    using send_content_errors(2) by blast
  have S3: "wellSized (sc_content c)
        \<and> rateLimit (messageRateLimit s) (userId (sc_socket c)) (sc_now c) = None \<longrightarrow>
        send c s = socketError (sc_socket c) TooManyMessages s"
    using send_content_errors(3) by blast
  have S4: "wellSized (sc_content c)
        \<and> rateLimit (messageRateLimit s) (userId (sc_socket c)) (sc_now c) = Some table \<longrightarrow>
        table (userId (sc_socket c)) \<noteq> messageRateLimit s (userId (sc_socket c))
        \<and> (regexTest urlPattern (sc_content c) \<longrightarrow>
             send c s = socketError (sc_socket c) LinkNotAllowed (s\<lparr>messageRateLimit := table\<rparr>))
        \<and> (\<not> regexTest urlPattern (sc_content c) \<and> regexTest phonePattern (sc_content c) \<longrightarrow>
             send c s = socketError (sc_socket c) PhoneNotAllowed (s\<lparr>messageRateLimit := table\<rparr>))"
    using send_policy_errors [of c s table] rateLimit_advances(1) [of _ _ _ table] by blast
  have E: "wellSized (sc_content c) \<and> policyClean (sc_content c)
        \<and> rateLimit (messageRateLimit s) (userId (sc_socket c)) (sc_now c) = Some table
        \<and> sc_fault c AtFindById = None \<longrightarrow>
        (outsider (db s) (sc_conversationId c) (userId (sc_socket c)) \<longrightarrow>
           send c s = socketError (sc_socket c) AccessDenied (s\<lparr>messageRateLimit := table\<rparr>))
        \<and> (missing (db s) (sc_conversationId c) \<longrightarrow>
           send c s = socketError (sc_socket c) ConversationNotFound
                        (s\<lparr>messageRateLimit := table\<rparr>))
        \<and> (castObjectId (sc_conversationId c) = None \<longrightarrow>
           (\<exists>m. send c s = socketError (sc_socket c) (FailedToSend m)
                             (s\<lparr>messageRateLimit := table\<rparr>)))"
    using send_reaches_lookup [of c s table] send_malformed [of c s table] by blast
  from A B C D M S1 S2 S3 S4 E show ?thesis by (intro conjI)
qed

lemma demo_outsider: "outsider demoStore demoConvId demoC" "missing demoStore demoUnknownConv"
  by code_simp+

lemma demo_malformed: "castObjectId demoMalformed = None"
  by code_simp

lemma demo_rateLimit_C:
  "rateLimit (messageRateLimit demoServer) demoC (sc_now (demoCall demoC t 0)) = Some demoTableC"
  by (simp add: rateLimit_def demoServer_def demoCall_def demoTableC_def)

lemma demo_outsider_send:
  "send (demoCall demoC ''hello'' 0) demoServer
     = socketError (demoSocket demoC) AccessDenied (demoServer\<lparr>messageRateLimit := demoTableC\<rparr>)"
proof -
  let ?c = "demoCall demoC ''hello'' 0"
  have c: "sc_socket ?c = demoSocket demoC" "sc_content ?c = ''hello''"
    "userId (sc_socket ?c) = demoC" "sc_conversationId ?c = demoConvId" "sc_fault ?c AtFindById = None"
    by (simp_all add: demoCall_def demoSocket_def noFault_def)
  have "outsider (db demoServer) (sc_conversationId ?c) (userId (sc_socket ?c))"
    using demo_outsider(1) by (simp add: c demoServer_def demoSocket_def)
  from send_reaches_lookup(1) [OF _ _ _ _ this, of demoTableC]
  show ?thesis using demo_hello demo_rateLimit_C [of "''hello''"]
    by (simp add: c demoSocket_def del: regexTest.simps)
qed

text \<open>
  Claim C6 as stated fails for send and for malformed identifiers. A user outside the
  conversation sends a greeting: the answer is "access denied", and the user's rate
  counter has changed; with empty content the answer is the content error, not "access
  denied". An identifier that is no ObjectId references no conversation, and joining
  with it, marking it as read and the REST method are answered with the general
  failure of the handler, not with "not found".
\<close>

theorem membership_counterexample:
  "outsider (db demoServer) demoConvId demoC
   \<and> messageRateLimit demoServer demoC = None
   \<and> messageRateLimit (send (demoCall demoC ''hello'' 0) demoServer) demoC
       = Some \<lparr>count = 1, resetTime = 61000\<rparr>
   \<and> send (demoCall demoC ''hello'' 0) demoServer
       \<noteq> socketError (demoSocket demoC) AccessDenied demoServer
   \<and> send (demoCall demoC [] 0) demoServer = socketError (demoSocket demoC) ContentEmpty demoServer
   \<and> list_all (\<lambda>conv. conv_id conv \<noteq> demoMalformed) (conversations (db demoServer))
   \<and> join_conversation (demoSocket demoA) demoMalformed noFault demoServer
       = socketError (demoSocket demoA) FailedToJoin demoServer
   \<and> mark_read (demoSocket demoA) demoMalformed 5 noFault demoServer
       = socketError (demoSocket demoA) FailedToMarkRead demoServer
   \<and> markMessagesAsRead demoA demoMalformed 5 noFault demoStore
       = (demoStore, ErrorResponse (message CastError) 500)
   \<and> FailedToJoin \<noteq> ConversationNotFound \<and> FailedToMarkRead \<noteq> ConversationNotFound"
proof -
  have 1: "outsider (db demoServer) demoConvId demoC"
    using demo_outsider(1) by (simp add: demoServer_def)
  have 2: "messageRateLimit demoServer demoC = None" by (simp add: demoServer_def)
  have 3: "messageRateLimit (send (demoCall demoC ''hello'' 0) demoServer) demoC
       = Some \<lparr>count = 1, resetTime = 61000\<rparr>"
    by (simp add: demo_outsider_send demoTableC_def)
  have 4: "send (demoCall demoC ''hello'' 0) demoServer
       \<noteq> socketError (demoSocket demoC) AccessDenied demoServer"
  proof
    assume "send (demoCall demoC ''hello'' 0) demoServer
              = socketError (demoSocket demoC) AccessDenied demoServer"
    then have "messageRateLimit (send (demoCall demoC ''hello'' 0) demoServer) demoC
                 = messageRateLimit demoServer demoC" by simp
    then show False using 2 3 by simp
  qed
  have 5: "send (demoCall demoC [] 0) demoServer = socketError (demoSocket demoC) ContentEmpty demoServer"
    by (simp add: send_def send_message_def demoCall_def)
  have 6: "list_all (\<lambda>conv. conv_id conv \<noteq> demoMalformed) (conversations (db demoServer))"
    by (simp add: demoServer_def demoStore_def demoConv_def demoConvId_def demoMalformed_def)
  have f: "Conversation_findById (noFault AtFindById) demoStore demoMalformed = Inl CastError"
    using malformed_findById [OF demo_malformed] by (simp add: noFault_def)
  have dbs: "db demoServer = demoStore" by (simp add: demoServer_def)
  have 7: "join_conversation (demoSocket demoA) demoMalformed noFault demoServer
       = socketError (demoSocket demoA) FailedToJoin demoServer"
    by (simp add: join_conversation_def f dbs)
  have 8: "mark_read (demoSocket demoA) demoMalformed 5 noFault demoServer
       = socketError (demoSocket demoA) FailedToMarkRead demoServer"
    by (simp add: mark_read_def f dbs)
  have 9: "markMessagesAsRead demoA demoMalformed 5 noFault demoStore
       = (demoStore, ErrorResponse (message CastError) 500)"
    by (simp add: markMessagesAsRead_def f internalError_def CastError_def demoA_def)
  have 10: "FailedToJoin \<noteq> ConversationNotFound" "FailedToMarkRead \<noteq> ConversationNotFound"
    by simp_all
  from 1 2 3 4 5 6 7 8 9 10 show ?thesis by (intro conjI)
qed

text \<open>
  A third user against the conversation of the first two: joining, marking as read,
  a greeting, a link, and empty content; an unknown identifier; and a malformed one.
\<close>

theorem membership_enforcement_witness:
  "outsider (db demoServer) demoConvId (userId (demoSocket demoC))
   \<and> missing (db demoServer) demoUnknownConv
   \<and> castObjectId demoMalformed = None
   \<and> join_conversation (demoSocket demoC) demoConvId noFault demoServer
       = socketError (demoSocket demoC) AccessDenied demoServer
   \<and> mark_read (demoSocket demoC) demoConvId 5 noFault demoServer
       = socketError (demoSocket demoC) AccessDenied demoServer
   \<and> markMessagesAsRead demoC demoConvId 5 noFault demoStore
       = (demoStore, ErrorResponse ''Access denied. You are not part of this conversation'' 403)
   \<and> join_conversation (demoSocket demoC) demoUnknownConv noFault demoServer
       = socketError (demoSocket demoC) ConversationNotFound demoServer
   \<and> join_conversation (demoSocket demoC) demoMalformed noFault demoServer
       = socketError (demoSocket demoC) FailedToJoin demoServer
   \<and> send (demoCall demoC ''hello'' 0) demoServer
       = socketError (demoSocket demoC) AccessDenied (demoServer\<lparr>messageRateLimit := demoTableC\<rparr>)
   \<and> send (demoCall demoC ''http://example.com'' 0) demoServer
       = socketError (demoSocket demoC) LinkNotAllowed (demoServer\<lparr>messageRateLimit := demoTableC\<rparr>)
   \<and> send (demoCall demoC [] 0) demoServer
       = socketError (demoSocket demoC) ContentEmpty demoServer"
proof -
  let ?c = "demoCall demoC ''hello'' 0"
  let ?l = "demoCall demoC ''http://example.com'' 0"
  let ?e = "demoCall demoC [] 0"
  have usr: "userId (demoSocket demoC) = demoC" by (simp add: demoSocket_def)
  have dbs: "db demoServer = demoStore" by (simp add: demoServer_def)
  have nf: "noFault AtFindById = None" by (simp add: noFault_def)
  have ne: "demoC \<noteq> []" by (simp add: demoC_def)
  have c: "sc_socket (demoCall demoC t 0) = demoSocket demoC" "sc_content (demoCall demoC t 0) = t"
    "sc_conversationId (demoCall demoC t 0) = demoConvId" "sc_fault (demoCall demoC t 0) = noFault"
    for t
    by (simp_all add: demoCall_def)
  have h1: "outsider (db demoServer) demoConvId (userId (demoSocket demoC))"
    using demo_outsider(1) by (simp add: usr dbs)
  have h2: "missing (db demoServer) demoUnknownConv" using demo_outsider(2) by (simp add: dbs)
  note inside = membership_enforcement [of demoServer demoConvId "demoSocket demoC" noFault 5 ?c
      demoTableC]
  note unknown = membership_enforcement [of demoServer demoUnknownConv "demoSocket demoC" noFault 5]
  note bad = membership_enforcement [of demoServer demoMalformed "demoSocket demoC" noFault 5]
  note link = membership_enforcement [of demoServer demoConvId "demoSocket demoC" noFault 5 ?l
      demoTableC]
  note empty = membership_enforcement [of demoServer demoConvId "demoSocket demoC" noFault 5 ?e]
  have 1: "join_conversation (demoSocket demoC) demoConvId noFault demoServer
       = socketError (demoSocket demoC) AccessDenied demoServer
     \<and> mark_read (demoSocket demoC) demoConvId 5 noFault demoServer
       = socketError (demoSocket demoC) AccessDenied demoServer
     \<and> markMessagesAsRead demoC demoConvId 5 noFault demoStore
       = (demoStore, ErrorResponse ''Access denied. You are not part of this conversation'' 403)"
    using inside [THEN conjunct2, THEN conjunct2, THEN conjunct1] h1 nf ne
    by (simp only: usr dbs simp_thms)
  have 2: "join_conversation (demoSocket demoC) demoUnknownConv noFault demoServer
       = socketError (demoSocket demoC) ConversationNotFound demoServer"
    using unknown [THEN conjunct2, THEN conjunct2, THEN conjunct2, THEN conjunct1] h2 nf
    by (simp only: simp_thms)
  have 3: "join_conversation (demoSocket demoC) demoMalformed noFault demoServer
       = socketError (demoSocket demoC) FailedToJoin demoServer"
    using bad [THEN conjunct2, THEN conjunct2, THEN conjunct2, THEN conjunct2, THEN conjunct1]
      demo_malformed nf
    by (simp only: simp_thms)
  have 4: "send ?c demoServer
       = socketError (demoSocket demoC) AccessDenied (demoServer\<lparr>messageRateLimit := demoTableC\<rparr>)"
    using inside [THEN conjunct2, THEN conjunct2, THEN conjunct2, THEN conjunct2, THEN conjunct2,
        THEN conjunct2, THEN conjunct2, THEN conjunct2, THEN conjunct2]
      demo_hello demo_rateLimit_C [of "''hello''"] h1 nf
    by (simp only: c usr simp_thms)
  have 5: "send ?l demoServer
       = socketError (demoSocket demoC) LinkNotAllowed (demoServer\<lparr>messageRateLimit := demoTableC\<rparr>)"
    using link [THEN conjunct2, THEN conjunct2, THEN conjunct2, THEN conjunct2, THEN conjunct2,
        THEN conjunct2, THEN conjunct2, THEN conjunct2, THEN conjunct1]
      demo_link demo_rateLimit_C [of "''http://example.com''"]
    by (simp only: c usr simp_thms)
  have 6: "send ?e demoServer = socketError (demoSocket demoC) ContentEmpty demoServer"
    using empty [THEN conjunct2, THEN conjunct2, THEN conjunct2, THEN conjunct2, THEN conjunct2,
        THEN conjunct1]
    by (simp only: c simp_thms)
  from h1 h2 demo_malformed 1 2 3 4 5 6 show ?thesis by (intro conjI) simp_all
qed

lemma markOne_settled: "\<not> unreadFor i u (markOne i u now m)"
  by (simp add: markOne_def unreadFor_def)

lemma markOne_idem: "map (markOne i u now') (map (markOne i u now) ms) = map (markOne i u now) ms"
  by (induction ms) (simp_all add: markOne_def unreadFor_def)

lemma markOne_idem_comp:
  "map (markOne i u now' \<circ> markOne i u now) ms = map (markOne i u now) ms"
  using markOne_idem [of i u now' now ms] by simp

lemma updateMany_ok:
  assumes "castObjectId cid = Some i" and "castObjectId uid = Some u"
  shows "Message_updateMany None st cid uid now
           = Inr (st\<lparr>messages := map (markOne i u now) (messages st)\<rparr>,
                  length (filter (unreadFor i u) (messages st)))"
  using assms by (simp add: Message_updateMany_def markOne_def [abs_def])

lemma participant_findById:
  "participant st cid uid \<Longrightarrow>
     \<exists>i conv. castObjectId cid = Some i
        \<and> Conversation_findById None st cid = Inr (Some conv) \<and> uid \<in> set (users conv)"
  by (auto simp: participant_def Conversation_findById_def split: option.splits)

lemma mark_read_ok:
  assumes "participant (db s) cid (userId sock)"
    and "castObjectId (userId sock) = Some (userId sock)"
    and "castObjectId cid = Some i"
  shows "mark_read sock cid now noFault s
           = emit (ToRoom (conversationRoom cid)) (MessagesRead cid (userId sock))
               (s\<lparr>db := (db s)\<lparr>messages := map (markOne i (userId sock) now) (messages (db s))\<rparr>\<rparr>)"
  using participant_findById [OF assms(1)] updateMany_ok [OF assms(3) assms(2)] assms(3)
  by (auto simp: mark_read_def noFault_def)

lemma markMessagesAsRead_ok:
  assumes "participant st cid u" and "castObjectId u = Some u" and "castObjectId cid = Some i"
  shows "markMessagesAsRead u cid now noFault st
           = (st\<lparr>messages := map (markOne i u now) (messages st)\<rparr>,
              SuccessResponse (length (filter (unreadFor i u) (messages st))) 200)"
proof -
  have "u \<noteq> []" using assms(2) by (auto simp: castObjectId_def split: if_splits)
  then show ?thesis
    using participant_findById [OF assms(1)] updateMany_ok [OF assms(3) assms(2)] assms(3)
    by (auto simp: markMessagesAsRead_def noFault_def)
qed

lemma participant_messages [simp]:
  "participant (st\<lparr>messages := ms\<rparr>) cid u = participant st cid u"
  by (simp add: participant_def cong: option.case_cong)

text \<open>
  Claim C8. When a participant marks a conversation as read, the messages of that
  conversation that the caller did not write and that were unread become read, with
  \<open>readAt\<close> set to the time of the call; every other message is left as it was, so that
  afterwards every message of the conversation not written by the caller is read. The
  socket handler then broadcasts the read receipt, the REST method answers with the
  number of messages it changed. A second call right after the first succeeds in the
  same way and leaves the store unchanged (the REST method reports 0 changes).
\<close>

theorem mark_read_idempotent:
  assumes "participant (db s) cid (userId sock)"
    and "castObjectId (userId sock) = Some (userId sock)"
    and "castObjectId cid = Some i"
  shows "messages (db (mark_read sock cid now noFault s))
           = map (markOne i (userId sock) now) (messages (db s))
       \<and> conversations (db (mark_read sock cid now noFault s)) = conversations (db s)
       \<and> (\<forall>m\<in>set (messages (db (mark_read sock cid now noFault s))).
             conversation m = i \<and> sender m \<noteq> userId sock \<longrightarrow> isRead m)
       \<and> newEvents s (mark_read sock cid now noFault s)
           = [(ToRoom (conversationRoom cid), MessagesRead cid (userId sock))]
       \<and> db (mark_read sock cid now' noFault (mark_read sock cid now noFault s))
           = db (mark_read sock cid now noFault s)
       \<and> newEvents (mark_read sock cid now noFault s)
            (mark_read sock cid now' noFault (mark_read sock cid now noFault s))
           = [(ToRoom (conversationRoom cid), MessagesRead cid (userId sock))]
       \<and> markMessagesAsRead (userId sock) cid now noFault (db s)
           = (db (mark_read sock cid now noFault s),
              SuccessResponse (length (filter (unreadFor i (userId sock)) (messages (db s)))) 200)
       \<and> markMessagesAsRead (userId sock) cid now' noFault (db (mark_read sock cid now noFault s))
           = (db (mark_read sock cid now noFault s), SuccessResponse 0 200)"
proof -
  let ?u = "userId sock"
  let ?s1 = "mark_read sock cid now noFault s"
  note first = mark_read_ok [OF assms, of now]
  have db1: "db ?s1 = (db s)\<lparr>messages := map (markOne i ?u now) (messages (db s))\<rparr>"
    by (simp add: first)
  have part1: "participant (db ?s1) cid ?u" using assms(1) by (simp add: db1)
  note second = mark_read_ok [OF part1 assms(2,3), of now']
  have settled: "filter (unreadFor i ?u) (map (markOne i ?u now) ms) = []" for ms
    by (induction ms) (simp_all add: markOne_settled)
  have 1: "messages (db ?s1) = map (markOne i ?u now) (messages (db s))" by (simp add: db1)
  have 2: "conversations (db ?s1) = conversations (db s)" by (simp add: db1)
  have 3: "\<forall>m\<in>set (messages (db ?s1)). conversation m = i \<and> sender m \<noteq> ?u \<longrightarrow> isRead m"
    unfolding 1 using markOne_settled [of i ?u now] by (auto simp: unreadFor_def)
  have 4: "newEvents s ?s1 = [(ToRoom (conversationRoom cid), MessagesRead cid ?u)]"
    by (simp add: first newEvents_def)
  have 5: "db (mark_read sock cid now' noFault ?s1) = db ?s1"
    by (simp add: second) (simp add: db1 markOne_idem_comp)
  have 6: "newEvents ?s1 (mark_read sock cid now' noFault ?s1)
             = [(ToRoom (conversationRoom cid), MessagesRead cid ?u)]"
    by (simp add: second newEvents_def)
  have 7: "markMessagesAsRead ?u cid now noFault (db s)
           = (db ?s1, SuccessResponse (length (filter (unreadFor i ?u) (messages (db s)))) 200)"
    using markMessagesAsRead_ok [OF assms, of now] by (simp add: db1)
  have 8: "markMessagesAsRead ?u cid now' noFault (db ?s1) = (db ?s1, SuccessResponse 0 200)"
    using markMessagesAsRead_ok [OF part1 assms(2,3), of now']
    by (simp add: db1 markOne_idem_comp settled)
  from 1 2 3 4 5 6 7 8 show ?thesis by (intro conjI)
qed

text \<open>The second participant marks the sample conversation as read, twice.\<close>

theorem mark_read_idempotent_witness:
  "participant (db demoChat) demoConvId (userId (demoSocket demoB))
   \<and> castObjectId (userId (demoSocket demoB)) = Some (userId (demoSocket demoB))
   \<and> castObjectId demoConvId = Some demoConvId
   \<and> map isRead (messages (db (mark_read (demoSocket demoB) demoConvId 100 noFault demoChat)))
        = [True, False, False]
   \<and> map readAt (messages (db (mark_read (demoSocket demoB) demoConvId 100 noFault demoChat)))
        = [Some 100, None, None]
   \<and> db (mark_read (demoSocket demoB) demoConvId 200 noFault
            (mark_read (demoSocket demoB) demoConvId 100 noFault demoChat))
        = db (mark_read (demoSocket demoB) demoConvId 100 noFault demoChat)
   \<and> markMessagesAsRead demoB demoConvId 200 noFault
        (db (mark_read (demoSocket demoB) demoConvId 100 noFault demoChat))
        = (db (mark_read (demoSocket demoB) demoConvId 100 noFault demoChat), SuccessResponse 0 200)"
proof -
  have usr: "userId (demoSocket demoB) = demoB" by (simp add: demoSocket_def)
  have h1: "participant (db demoChat) demoConvId (userId (demoSocket demoB))"
    using demo_participant(2) by (simp add: usr demoChat_def)
  have h2: "castObjectId (userId (demoSocket demoB)) = Some (userId (demoSocket demoB))"
    by (simp add: usr demo_ids)
  have h3: "castObjectId demoConvId = Some demoConvId" by (rule demo_ids)
  note main = mark_read_idempotent [OF h1 h2 h3, of 100 200]
  have ne: "demoA \<noteq> demoB" "demoUnknownConv \<noteq> demoConvId"
    by (simp_all add: demoA_def demoB_def demoUnknownConv_def demoConvId_def)
  have marked: "map (markOne demoConvId demoB 100) (messages (db demoChat))
      = [\<lparr>msg_id = demoMsgId 1, conversation = demoConvId, sender = demoA, content = ''hi'',
           isRead = True, readAt = Some 100, msg_createdAt = 10\<rparr>,
         \<lparr>msg_id = demoMsgId 2, conversation = demoConvId, sender = demoB, content = ''hello'',
           isRead = False, readAt = None, msg_createdAt = 20\<rparr>,
         \<lparr>msg_id = demoMsgId 3, conversation = demoUnknownConv, sender = demoA, content = ''other'',
           isRead = False, readAt = None, msg_createdAt = 30\<rparr>]"
    using ne by (simp add: demoChat_def demoMessages_def markOne_def unreadFor_def)
  have 1: "map isRead (messages (db (mark_read (demoSocket demoB) demoConvId 100 noFault demoChat)))
        = [True, False, False]
      \<and> map readAt (messages (db (mark_read (demoSocket demoB) demoConvId 100 noFault demoChat)))
        = [Some 100, None, None]"
    using main [THEN conjunct1] by (simp add: usr marked)
  have 2: "db (mark_read (demoSocket demoB) demoConvId 200 noFault
            (mark_read (demoSocket demoB) demoConvId 100 noFault demoChat))
        = db (mark_read (demoSocket demoB) demoConvId 100 noFault demoChat)"
    using main by blast
  have 3: "markMessagesAsRead demoB demoConvId 200 noFault
        (db (mark_read (demoSocket demoB) demoConvId 100 noFault demoChat))
        = (db (mark_read (demoSocket demoB) demoConvId 100 noFault demoChat), SuccessResponse 0 200)"
    using main by (simp only: usr)
  from h1 h2 h3 1 2 3 show ?thesis by (intro conjI) simp_all
qed

section \<open>Properties of the chat controller\<close>

declare run.simps [simp del]

lemma run_Done [simp]: "run env k c st (Done r) = (st, r)"
  by (simp add: run.simps)

lemma run_step:
  "rank p \<noteq> 0 \<Longrightarrow>
   run env k c st p = (case step c (env k st) p of (st', p') \<Rightarrow> run env (Suc k) c st' p')"
  by (cases p; subst run.simps; simp)

lemma run_failed [simp]:
  "run env k c st (failed e) = (st, internalError ''Failed to get or create conversation'' e)"
  by (simp add: failed_def)

lemma step_Find1:
  "faults c AtFind1 = None \<Longrightarrow>
   step c st (Find1 q) = (st, case lookupExact q st of
                                Some conv \<Rightarrow> Done (SuccessResponse conv 200)
                              | None \<Rightarrow> Find2 q)"
  by (simp add: Conversation_find_def lookupExact_def)

lemma step_Find2:
  "faults c AtFind2 = None \<Longrightarrow>
   step c st (Find2 q) = (st, case lookupExact q st of
                                Some conv \<Rightarrow> Done (SuccessResponse conv 200)
                              | None \<Rightarrow> Create q)"
  by (simp add: Conversation_find_def lookupExact_def)

lemma step_Create:
  "faults c AtCreateConv = None \<Longrightarrow>
   step c st (Create q) = (st\<lparr>conversations := conversations st @ [created c q]\<rparr>,
                           Populate (created c q))"
  by (simp add: Conversation_create_def created_def Let_def)

lemma step_Create_duplicate:
  "faults c AtCreateConv = Some e \<Longrightarrow> isDuplicateKeyError e \<Longrightarrow>
   step c st (Create q) = (st, RetrySleep q 3 500)"
  by (simp add: Conversation_create_def)

lemma step_Populate:
  "faults c AtPopulateConv = None \<Longrightarrow>
   step c st (Populate conv) =
     (st, case find (\<lambda>x. conv_id x = conv_id conv) (conversations st) of
            None \<Rightarrow> Done (ErrorResponse ''Failed to get or create conversation'' 500)
          | Some found \<Rightarrow> Done (SuccessResponse (populate st found) 200))"
  by (simp add: Conversation_findByObjectId_def)

lemma step_RetrySleep: "step c st (RetrySleep q r d) = (st, RetryFindOne q r d)"
  by simp

lemma step_RetryFindOne:
  "faults c AtRetryFindOne = None \<Longrightarrow>
   step c st (RetryFindOne q r d) =
     (st, case lookupOne q st of
            Some conv \<Rightarrow> Done (SuccessResponse conv 200)
          | None \<Rightarrow> RetryFindAll q r d)"
  by (simp add: Conversation_findOne_def lookupOne_def split: option.splits)

lemma step_RetryFindAll:
  "faults c AtRetryFindAll = None \<Longrightarrow>
   step c st (RetryFindAll q r d) =
     (st, case lookupAll c q st of
            Some conv \<Rightarrow> Done (SuccessResponse conv 200)
          | None \<Rightarrow> if r - 1 > 0 then RetrySleep q (r - 1) (d + 500) else Done retriesExhausted)"
  by (simp add: Conversation_findAllSorted_def lookupAll_def)

lemma conv_id_created [simp]: "conv_id (created c q) = freshId c"
  by (simp add: created_def)

text \<open>From the first lookup on, with no other handler active and no failure.\<close>

lemma run_from_Find1:
  assumes "faults c = noFaults"
  shows "run (\<lambda>k. id) k c st (Find1 q) =
           (case lookupExact q st of
              Some conv \<Rightarrow> (st, SuccessResponse conv 200)
            | None \<Rightarrow>
                (st\<lparr>conversations := conversations st @ [created c q]\<rparr>,
                 case find (\<lambda>x. conv_id x = freshId c) (conversations st @ [created c q]) of
                   None \<Rightarrow> ErrorResponse ''Failed to get or create conversation'' 500
                 | Some conv \<Rightarrow>
                     SuccessResponse
                       (populate (st\<lparr>conversations := conversations st @ [created c q]\<rparr>) conv)
                       200))"
proof -
  have f: "faults c p = None" for p using assms by (simp add: noFaults_def)
  show ?thesis
    by (simp add: run_step step_Find1 step_Find2 step_Create step_Populate f
             del: step.simps split: option.splits)
qed

lemma castObjectId_nonempty: "castObjectId x = Some i \<Longrightarrow> x \<noteq> []"
  by (auto simp: castObjectId_def split: if_splits)

lemma buildQuery_valid:
  assumes "castObjectId (currentUserId r) = Some a" and "castObjectId (body_userId r) = Some b"
    and "jobOk st (body_jobId r)"
  shows "buildQuery r = Inr (pairQuery a b (body_jobId r))"
  using assms
  by (auto simp: buildQuery_def pairQuery_def jobContext_def jobOk_def split: option.splits)

lemma start_valid:
  assumes "castObjectId (currentUserId (req c)) = Some a"
    and "castObjectId (body_userId (req c)) = Some b"
    and "currentUserId (req c) \<noteq> body_userId (req c)"
  shows "start c = FindUser"
  using assms castObjectId_nonempty by (auto simp: start_def)

lemma run_to_Find1:
  assumes nf: "faults c = noFaults"
    and cur: "castObjectId (currentUserId (req c)) = Some a"
    and oth: "castObjectId (body_userId (req c)) = Some b" "b \<in> set (userDocs st)"
    and jb: "jobOk st (body_jobId (req c))"
  shows "run (\<lambda>k. id) 0 c st FindUser
           = run (\<lambda>k. id) (if body_jobId (req c) = [] then 1 else 2) c st
               (Find1 (pairQuery a b (body_jobId (req c))))"
proof -
  have f: "faults c p = None" for p using nf by (simp add: noFaults_def)
  have av: "afterValidation c = Find1 (pairQuery a b (body_jobId (req c)))"
    using buildQuery_valid [OF cur oth(1) jb] by (simp add: afterValidation_def)
  have fu: "User_findById None st (body_userId (req c)) = Inr True"
    using oth by (simp add: User_findById_def)
  show ?thesis
  proof (cases "body_jobId (req c) = []")
    case True
    have "run (\<lambda>k. id) 0 c st FindUser
            = run (\<lambda>k. id) (Suc 0) c st (Find1 (pairQuery a b (body_jobId (req c))))"
      by (subst run_step) (simp_all add: f fu av True)
    then show ?thesis using True by simp
  next
    case False
    then have fp: "Post_findById None st (body_jobId (req c)) = Inr True"
      using jb by (auto simp: jobOk_def Post_findById_def split: option.splits)
    have "run (\<lambda>k. id) 0 c st FindUser = run (\<lambda>k. id) (Suc 0) c st FindJob"
      by (subst run_step) (simp_all add: f fu False)
    also have "\<dots> = run (\<lambda>k. id) (Suc (Suc 0)) c st (Find1 (pairQuery a b (body_jobId (req c))))"
      by (subst run_step) (simp_all add: f fp av)
    finally show ?thesis using False by (simp add: numeral_2_eq_2)
  qed
qed

text \<open>The method on a valid request, with no other handler active and no failure.\<close>

lemma getOrCreateConversation_valid:
  assumes nf: "faults c = noFaults"
    and cur: "castObjectId (currentUserId (req c)) = Some a"
    and oth: "castObjectId (body_userId (req c)) = Some b" "b \<in> set (userDocs st)"
    and diff: "currentUserId (req c) \<noteq> body_userId (req c)"
    and jb: "jobOk st (body_jobId (req c))"
    and q: "q = pairQuery a b (body_jobId (req c))"
  shows "getOrCreateConversation c st =
           (case lookupExact q st of
              Some conv \<Rightarrow> (st, SuccessResponse conv 200)
            | None \<Rightarrow>
                (st\<lparr>conversations := conversations st @ [created c q]\<rparr>,
                 case find (\<lambda>x. conv_id x = freshId c) (conversations st @ [created c q]) of
                   None \<Rightarrow> ErrorResponse ''Failed to get or create conversation'' 500
                 | Some conv \<Rightarrow>
                     SuccessResponse
                       (populate (st\<lparr>conversations := conversations st @ [created c q]\<rparr>) conv)
                       200))"
  unfolding getOrCreateConversation_def start_valid [OF cur oth(1) diff]
    run_to_Find1 [OF nf cur oth jb] run_from_Find1 [OF nf] q ..

lemma getOrCreateConversation_rejects:
  shows "currentUserId (req c) = body_userId (req c) \<Longrightarrow> currentUserId (req c) \<noteq> [] \<Longrightarrow>
           getOrCreateConversation c st
             = (st, ErrorResponse ''Cannot create conversation with yourself'' 400)"
    and "currentUserId (req c) = body_userId (req c) \<Longrightarrow> currentUserId (req c) = [] \<Longrightarrow>
           getOrCreateConversation c st = (st, ErrorResponse ''User not authenticated'' 401)"
    and "start c = FindUser \<Longrightarrow> faults c AtFindUser = None \<Longrightarrow>
           castObjectId (body_userId (req c)) = Some b \<Longrightarrow> b \<notin> set (userDocs st) \<Longrightarrow>
           getOrCreateConversation c st = (st, ErrorResponse ''User not found'' 404)"
    and "start c = FindUser \<Longrightarrow> faults c AtFindUser = None \<Longrightarrow> faults c AtFindJob = None \<Longrightarrow>
           castObjectId (body_userId (req c)) = Some b \<Longrightarrow> b \<in> set (userDocs st) \<Longrightarrow>
           body_jobId (req c) \<noteq> [] \<Longrightarrow> castObjectId (body_jobId (req c)) = Some j \<Longrightarrow>
           j \<notin> set (postDocs st) \<Longrightarrow>
           getOrCreateConversation c st = (st, ErrorResponse ''Job not found'' 404)"
  by (simp_all add: getOrCreateConversation_def start_def run_step User_findById_def
        Post_findById_def)

lemma run_after_duplicate:
  assumes "faults c AtCreateConv = Some e" and "isDuplicateKeyError e"
    and "faults c AtRetryFindOne = None" and "faults c AtRetryFindAll = None"
  shows "snd (run env k c st (Create q)) =
           (case firstHit (retryHits env k c st q) of
              Some conv \<Rightarrow> SuccessResponse conv 200
            | None \<Rightarrow> retriesExhausted)"
proof -
  have s: "storeAt env k st 2 = env (Suc (Suc k)) (env (Suc k) (env k st))"
    "storeAt env k st 3 = env (Suc (Suc (Suc k))) (storeAt env k st 2)"
    "storeAt env k st 5 = env (Suc (Suc (Suc (Suc (Suc k))))) (env (Suc (Suc (Suc (Suc k)))) (storeAt env k st 3))"
    "storeAt env k st 6 = env (Suc (Suc (Suc (Suc (Suc (Suc k)))))) (storeAt env k st 5)"
    "storeAt env k st 8 = env (Suc (Suc (Suc (Suc (Suc (Suc (Suc (Suc k)))))))) (env (Suc (Suc (Suc (Suc (Suc (Suc (Suc k))))))) (storeAt env k st 6))"
    "storeAt env k st 9 = env (Suc (Suc (Suc (Suc (Suc (Suc (Suc (Suc (Suc k))))))))) (storeAt env k st 8)"
    by (simp_all add: eval_nat_numeral)
  show ?thesis
    unfolding retryHits_def s
    by (simp add: run_step step_Create_duplicate [OF assms(1,2)] step_RetrySleep
          step_RetryFindOne [OF assms(3)] step_RetryFindAll [OF assms(4)]
          del: step.simps storeAt.simps split: option.splits)
qed

lemma conv_id_populate [simp]: "conv_id (populate st d) = conv_id d"
  by (simp add: populate_def)


lemma job_populate:
  "job (populate st d)
     = (case job d of None \<Rightarrow> None | Some j \<Rightarrow> if j \<in> set (postDocs st) then Some j else None)"
  by (simp add: populate_def)

lemma populate_conversations [simp]:
  "populate (st\<lparr>conversations := cs\<rparr>) = populate st"
  by (rule ext) (simp add: populate_def cong: option.case_cong)

lemma find_Some_mem: "find P xs = Some x \<Longrightarrow> x \<in> set xs \<and> P x"
  by (induction xs) (auto split: if_splits)




lemma firstHit_None: "firstHit hs = None \<longleftrightarrow> \<not> list_ex (\<lambda>h. h \<noteq> None) hs"
  by (induction hs rule: firstHit.induct) auto














lemma demo_retry_hits:
  "firstHit (retryHits demoEnv 3 demoDupCall demoStore demoQuery) = Some demoRaced"
  "firstHit (retryHits (\<lambda>n. id) 3 demoDupCall demoStore demoQuery) = None"
  "firstHit (retryHits demoLateEnv 3 demoDupCall demoStore demoQuery) = Some demoRaced"
  "firstHit (retryHits demoLateJobEnv 4 demoDupJobCall demoStore demoJobQuery) = Some demoRacedJob"
  by code_simp+





text \<open>
  A conversation whose job post has been deleted is populated without a job. The
  \<open>findOne\<close> of a request without job does not match it, since it still refers to
  the job; the broad \<open>find\<close> filters the populated documents and accepts it, and the
  response shows it without a job.
\<close>

lemma deleted_job_post_answered:
  "snd (run (\<lambda>n. id) 3 demoDupCall demoOrphanStore (Create demoQuery))
     = SuccessResponse (populate demoOrphanStore demoRacedJob) 200
   \<and> job demoRacedJob = Some demoJob
   \<and> job (populate demoOrphanStore demoRacedJob) = None
   \<and> lookupOne demoQuery demoOrphanStore = None"
  by code_simp

text \<open>
  The error conditions of the method. A request whose \<open>userId\<close> is the caller's
  identifier, character for character, is refused and creates nothing, whatever the job
  context: with status 400 and the message of the self-conversation check for an
  authenticated caller. A well-formed identifier of the other user that no user carries
  is answered with status 404, and so is a well-formed job identifier that no job post
  carries. The error of the exhausted retries has status 500.
\<close>

lemma resolve_error_conditions:
  "(currentUserId (req c) = body_userId (req c) \<longrightarrow>
      (\<exists>m n. getOrCreateConversation c st = (st, ErrorResponse m n)))
   \<and> (currentUserId (req c) = body_userId (req c) \<and> currentUserId (req c) \<noteq> [] \<longrightarrow>
        getOrCreateConversation c st
          = (st, ErrorResponse ''Cannot create conversation with yourself'' 400))
   \<and> (currentUserId (req c) \<noteq> [] \<and> currentUserId (req c) \<noteq> body_userId (req c)
        \<and> faults c AtFindUser = None
        \<and> castObjectId (body_userId (req c)) = Some b \<and> b \<notin> set (userDocs st) \<longrightarrow>
        getOrCreateConversation c st = (st, ErrorResponse ''User not found'' 404))
   \<and> (currentUserId (req c) \<noteq> [] \<and> currentUserId (req c) \<noteq> body_userId (req c)
        \<and> faults c AtFindUser = None \<and> faults c AtFindJob = None
        \<and> castObjectId (body_userId (req c)) = Some b \<and> b \<in> set (userDocs st)
        \<and> castObjectId (body_jobId (req c)) = Some j \<and> j \<notin> set (postDocs st) \<longrightarrow>
        getOrCreateConversation c st = (st, ErrorResponse ''Job not found'' 404))
   \<and> (faults c AtCreateConv = Some e \<and> isDuplicateKeyError e
        \<and> faults c AtRetryFindOne = None \<and> faults c AtRetryFindAll = None
        \<and> \<not> list_ex (\<lambda>h. h \<noteq> None) (retryHits env k c st q) \<longrightarrow>
        snd (run env k c st (Create q)) =
          ErrorResponse
            ''Failed to get or create conversation: conversation not found after duplicate key error''
            500)"
proof -
  have A: "currentUserId (req c) = body_userId (req c) \<longrightarrow>
      (\<exists>m n. getOrCreateConversation c st = (st, ErrorResponse m n))"
    using getOrCreateConversation_rejects(1,2) [of c st] by (cases "currentUserId (req c) = []") auto
  have B: "currentUserId (req c) = body_userId (req c) \<and> currentUserId (req c) \<noteq> [] \<longrightarrow>
        getOrCreateConversation c st
          = (st, ErrorResponse ''Cannot create conversation with yourself'' 400)"
    using getOrCreateConversation_rejects(1) by blast
  have st: "start c = FindUser"
    if "currentUserId (req c) \<noteq> []" "currentUserId (req c) \<noteq> body_userId (req c)"
      "castObjectId (body_userId (req c)) = Some b"
    using that castObjectId_nonempty by (auto simp: start_def)
  have C: "currentUserId (req c) \<noteq> [] \<and> currentUserId (req c) \<noteq> body_userId (req c)
        \<and> faults c AtFindUser = None
        \<and> castObjectId (body_userId (req c)) = Some b \<and> b \<notin> set (userDocs st) \<longrightarrow>
        getOrCreateConversation c st = (st, ErrorResponse ''User not found'' 404)"
    using getOrCreateConversation_rejects(3) st by blast
  have D: "currentUserId (req c) \<noteq> [] \<and> currentUserId (req c) \<noteq> body_userId (req c)
        \<and> faults c AtFindUser = None \<and> faults c AtFindJob = None
        \<and> castObjectId (body_userId (req c)) = Some b \<and> b \<in> set (userDocs st)
        \<and> castObjectId (body_jobId (req c)) = Some j \<and> j \<notin> set (postDocs st) \<longrightarrow>
        getOrCreateConversation c st = (st, ErrorResponse ''Job not found'' 404)"
    using getOrCreateConversation_rejects(4) st castObjectId_nonempty by blast
  have E: "faults c AtCreateConv = Some e \<and> isDuplicateKeyError e
        \<and> faults c AtRetryFindOne = None \<and> faults c AtRetryFindAll = None
        \<and> \<not> list_ex (\<lambda>h. h \<noteq> None) (retryHits env k c st q) \<longrightarrow>
        snd (run env k c st (Create q)) =
          ErrorResponse
            ''Failed to get or create conversation: conversation not found after duplicate key error''
            500"
    using run_after_duplicate [of c e env k st q] firstHit_None [of "retryHits env k c st q"]
    by (auto simp: retriesExhausted_def)
  from A B C D E show ?thesis by (intro conjI)
qed

text \<open>
  The first user asks for itself; for an identifier no user carries; for the third user
  with a job no post carries; and the retries of a refused insert find nothing.
\<close>

lemma resolve_error_conditions_sample:
  "getOrCreateConversation (demoRequest demoA demoA demoJob 0) demoStore
     = (demoStore, ErrorResponse ''Cannot create conversation with yourself'' 400)
   \<and> getOrCreateConversation (demoRequest demoA demoUnknownConv [] 0) demoStore
     = (demoStore, ErrorResponse ''User not found'' 404)
   \<and> getOrCreateConversation (demoRequest demoA demoC demoUnknownConv 0) demoStore
     = (demoStore, ErrorResponse ''Job not found'' 404)
   \<and> snd (run (\<lambda>n. id) 3 demoDupCall demoStore (Create demoQuery))
     = ErrorResponse
         ''Failed to get or create conversation: conversation not found after duplicate key error''
         500"
proof -
  have nf: "faults (demoRequest a b j n) p = None" for a b j n p
    by (simp add: demoRequest_def noFaults_def)
  have r: "currentUserId (req (demoRequest a b j n)) = a" "body_userId (req (demoRequest a b j n)) = b"
    "body_jobId (req (demoRequest a b j n)) = j" for a b j n
    by (simp_all add: demoRequest_def)
  have ne: "demoA \<noteq> []" "demoA \<noteq> demoUnknownConv" "demoA \<noteq> demoC"
    by (simp_all add: demoA_def demoUnknownConv_def demoC_def)
  have ids: "castObjectId demoUnknownConv = Some demoUnknownConv" by code_simp
  have docs: "demoUnknownConv \<notin> set (userDocs demoStore)" "demoC \<in> set (userDocs demoStore)"
    "demoUnknownConv \<notin> set (postDocs demoStore)"
    by (simp_all add: demoStore_def demoUnknownConv_def demoA_def demoB_def demoC_def demoJob_def)
  have 1: "getOrCreateConversation (demoRequest demoA demoA demoJob 0) demoStore
     = (demoStore, ErrorResponse ''Cannot create conversation with yourself'' 400)"
    using resolve_error_conditions [of "demoRequest demoA demoA demoJob 0" demoStore,
        THEN conjunct2, THEN conjunct1] ne
    by (simp add: r)
  have 2: "getOrCreateConversation (demoRequest demoA demoUnknownConv [] 0) demoStore
     = (demoStore, ErrorResponse ''User not found'' 404)"
    using resolve_error_conditions [of "demoRequest demoA demoUnknownConv [] 0" demoStore
        demoUnknownConv, THEN conjunct2, THEN conjunct2, THEN conjunct1] ne ids docs
    by (simp add: r nf)
  have 3: "getOrCreateConversation (demoRequest demoA demoC demoUnknownConv 0) demoStore
     = (demoStore, ErrorResponse ''Job not found'' 404)"
    using resolve_error_conditions [of "demoRequest demoA demoC demoUnknownConv 0" demoStore
        demoC demoUnknownConv, THEN conjunct2, THEN conjunct2, THEN conjunct2, THEN conjunct1]
      ne ids docs demo_ids(3)
    by (simp add: r nf)
  have h: "faults demoDupCall AtCreateConv = Some demoDuplicate"
    "faults demoDupCall AtRetryFindOne = None" "faults demoDupCall AtRetryFindAll = None"
    "isDuplicateKeyError demoDuplicate"
    by (simp_all add: demoDupCall_def isDuplicateKeyError_def demoDuplicate_def)
  have "\<not> list_ex (\<lambda>h. h \<noteq> None) (retryHits (\<lambda>n. id) 3 demoDupCall demoStore demoQuery)"
    using demo_retry_hits(2) firstHit_None by blast
  then have 4: "snd (run (\<lambda>n. id) 3 demoDupCall demoStore (Create demoQuery))
     = ErrorResponse
         ''Failed to get or create conversation: conversation not found after duplicate key error''
         500"
    using resolve_error_conditions [of demoDupCall demoStore _ _ demoDuplicate "\<lambda>n. id" 3 demoQuery,
        THEN conjunct2, THEN conjunct2, THEN conjunct2, THEN conjunct2] h
    by blast
  from 1 2 3 4 show ?thesis by (intro conjI)
qed

text \<open>
  Claim C9 fails on the code. The self check compares the two identifiers as strings,
  while the lookups and the query read an identifier without regard to the case of its
  digits. The first user sends its own identifier in upper case as \<open>userId\<close>: the
  identifier names the caller, the check lets the request through, the user lookup
  finds the caller, and the method answers with status 200 and a new conversation whose
  two users are both the caller. The same identifier in the caller's own spelling is
  refused with status 400.
\<close>

theorem self_conversation_created:
  "castObjectId ''AAAAAAAAAAAAAAAAAAAAAAAA'' = Some demoA
   \<and> castObjectId demoA = Some demoA
   \<and> getOrCreateConversation (demoRequest demoA ''AAAAAAAAAAAAAAAAAAAAAAAA'' [] 0) demoStore
       = (demoStore\<lparr>conversations := [demoConv, demoSelfConv]\<rparr>,
          SuccessResponse demoSelfConv 200)
   \<and> users demoSelfConv = [demoA, demoA]
   \<and> getOrCreateConversation (demoRequest demoA demoA [] 0) demoStore
       = (demoStore, ErrorResponse ''Cannot create conversation with yourself'' 400)"
  by code_simp

lemma sort_pair_comm: "sort [a, b] = sort [b, (a :: string)]"
  by (cases "a \<le> b"; cases "b \<le> a") auto

lemma pairQuery_comm: "pairQuery a b j = pairQuery b a j"
  by (simp add: pairQuery_def sort_pair_comm del: sort_key_simps)

lemma pairQuery_length: "length (q_users (pairQuery a b j)) = 2"
  by (simp add: pairQuery_def del: sort_key_simps)

lemma exactPair_same:
  "length us = 2 \<Longrightarrow> users conv = us \<Longrightarrow> exactPair us conv"
  by (simp add: exactPair_def Let_def)

lemma created_matches:
  assumes "q = pairQuery a b j"
  shows "matchesQuery q (created c q)" and "exactPair (q_users q) (created c q)"
proof -
  show "matchesQuery q (created c q)"
    by (simp add: matchesQuery_def created_def list_all_iff)
  show "exactPair (q_users q) (created c q)"
    using pairQuery_length [of a b j] assms
    by (intro exactPair_same) (simp_all add: created_def)
qed

lemma find_append_last:
  "find P (xs @ [y]) = (case find P xs of Some x \<Rightarrow> Some x | None \<Rightarrow> if P y then Some y else None)"
  by (induction xs) auto

lemma populate_created: "refsExist q st \<Longrightarrow> populate st (created c q) = created c q"
  by (auto simp: populate_def created_def refsExist_def list_all_iff split: option.splits)

lemma refsExist_pairQuery:
  assumes "a \<in> set (userDocs st)" and "b \<in> set (userDocs st)" and "jobOk st J"
  shows "refsExist (pairQuery a b J) st"
proof -
  have "set (sort [a, b]) = {a, b}" by (simp only: set_sort) simp
  then show ?thesis
    using assms
    by (auto simp: refsExist_def pairQuery_def jobContext_def jobOk_def list_all_iff
          simp del: sort_key_simps split: option.splits)
qed

lemma job_populate_ok:
  "jobOk st J \<Longrightarrow> job d = jobContext J \<Longrightarrow> job (populate st d) = jobContext J"
  by (auto simp: job_populate jobOk_def jobContext_def split: option.splits if_splits)

lemma lookupExact_after_create:
  assumes "q = pairQuery a b j" and "lookupExact q st = None" and "refsExist q st"
  shows "lookupExact q (st\<lparr>conversations := conversations st @ [created c q]\<rparr>) = Some (created c q)"
  using assms(2) created_matches [OF assms(1), of c] populate_created [OF assms(3), of c]
  by (simp add: lookupExact_def find_append_last)

lemma lookupExact_Some:
  assumes "lookupExact q st = Some conv"
  shows "\<exists>d \<in> set (conversations st). conv = populate st d \<and> job d = q_job q"
  using find_Some_mem [OF assms [unfolded lookupExact_def]]
  by (auto simp: matchesQuery_def)

lemma find_fresh:
  assumes "freshId c \<notin> set (map conv_id (conversations st))"
  shows "find (\<lambda>x. conv_id x = freshId c) (conversations st @ [created c q]) = Some (created c q)"
proof -
  have "find (\<lambda>x. conv_id x = freshId c) (conversations st) = None"
    using assms by (force simp: find_None_iff)
  then show ?thesis by (simp add: find_append_last created_def)
qed

text \<open>
  The outcome of the method on a valid request: the conversation it answers with and
  the store it leaves.
\<close>

lemma resolve_outcome:
  assumes a: "castObjectId A = Some a" "a \<in> set (userDocs st)"
    and b: "castObjectId B = Some b" "b \<in> set (userDocs st)"
    and diff: "A \<noteq> B" and jb: "jobOk st J"
    and q: "q = pairQuery a b J" and c: "c = resolveCall A B J n t"
  shows "lookupExact q st = Some conv \<Longrightarrow>
           getOrCreateConversation c st = (st, SuccessResponse conv 200)"
    and "lookupExact q st = None \<Longrightarrow> n \<notin> set (map conv_id (conversations st)) \<Longrightarrow>
           getOrCreateConversation c st
             = (st\<lparr>conversations := conversations st @ [created c q]\<rparr>,
                SuccessResponse (created c q) 200)"
proof -
  have r: "currentUserId (req c) = A" "body_userId (req c) = B" "body_jobId (req c) = J"
    "faults c = noFaults" "freshId c = n"
    by (simp_all add: c resolveCall_def)
  note closed = getOrCreateConversation_valid [of c a b st q, unfolded r, OF refl a(1) b diff jb q]
  have refs: "refsExist q st" unfolding q by (rule refsExist_pairQuery [OF a(2) b(2) jb])
  show "lookupExact q st = Some conv \<Longrightarrow>
           getOrCreateConversation c st = (st, SuccessResponse conv 200)"
    by (simp add: closed)
  assume "lookupExact q st = None" "n \<notin> set (map conv_id (conversations st))"
  then show "getOrCreateConversation c st
             = (st\<lparr>conversations := conversations st @ [created c q]\<rparr>,
                SuccessResponse (created c q) 200)"
    using find_fresh [of c st q] populate_created [OF refs, of c] by (simp add: closed r)
qed

lemma distinct_ids_differ:
  assumes "distinct (map conv_id xs)" and "x \<in> set xs" and "y \<in> set xs" and "x \<noteq> y"
  shows "conv_id x \<noteq> conv_id y"
  using assms by (meson distinct_map inj_on_contraD)

text \<open>
  Claim C3. For two existing users and a job context the store knows, the method
  answers with a conversation; the same call with the two users exchanged gives the
  same answer and the same store; every later call for the pair and the context, in
  either order, answers with that same conversation and changes nothing; and a call for
  the same pair with a different job context answers with a conversation that has a
  different identifier.
\<close>

theorem conversation_identity:
  assumes a: "castObjectId A = Some a" "a \<in> set (userDocs st)"
    and b: "castObjectId B = Some b" "b \<in> set (userDocs st)"
    and diff: "A \<noteq> B" and jb: "jobOk st J"
    and fresh: "n1 \<notin> set (map conv_id (conversations st))"
  shows "\<exists>conv st1.
           getOrCreateConversation (resolveCall A B J n1 t1) st = (st1, SuccessResponse conv 200)
         \<and> getOrCreateConversation (resolveCall B A J n1 t1) st = (st1, SuccessResponse conv 200)
         \<and> (\<forall>n2 t2.
               getOrCreateConversation (resolveCall A B J n2 t2) st1
                 = (st1, SuccessResponse conv 200)
             \<and> getOrCreateConversation (resolveCall B A J n2 t2) st1
                 = (st1, SuccessResponse conv 200))
         \<and> (\<forall>J' n2 t2.
               jobOk st J' \<and> jobContext J' \<noteq> jobContext J
               \<and> distinct (map conv_id (conversations st))
               \<and> n2 \<notin> set (map conv_id (conversations st1)) \<longrightarrow>
               (\<exists>conv' st2.
                   getOrCreateConversation (resolveCall A B J' n2 t2) st1
                     = (st2, SuccessResponse conv' 200)
                 \<and> job conv = jobContext J \<and> job conv' = jobContext J'
                 \<and> conv_id conv' \<noteq> conv_id conv))"
proof -
  define q where "q = pairQuery a b J"
  have q': "q = pairQuery b a J" by (simp add: q_def pairQuery_comm)
  define c where "c = resolveCall A B J n1 t1"
  define c' where "c' = resolveCall B A J n1 t1"
  have same_doc: "created c' q = created c q"
    by (simp add: created_def c_def c'_def resolveCall_def)
  obtain conv st1 where first: "getOrCreateConversation c st = (st1, SuccessResponse conv 200)"
    and swapped: "getOrCreateConversation c' st = (st1, SuccessResponse conv 200)"
    and found: "lookupExact q st1 = Some conv"
    and docs: "userDocs st1 = userDocs st" "postDocs st1 = postDocs st"
    and ids: "distinct (map conv_id (conversations st)) \<Longrightarrow> distinct (map conv_id (conversations st1))"
  proof (cases "lookupExact q st")
    case (Some conv)
    from resolve_outcome(1) [OF a b diff jb q_def c_def Some]
      resolve_outcome(1) [OF b a diff[symmetric] jb q' c'_def Some] Some
    show ?thesis using that by simp
  next
    case None
    let ?st1 = "st\<lparr>conversations := conversations st @ [created c q]\<rparr>"
    from resolve_outcome(2) [OF a b diff jb q_def c_def None fresh]
      resolve_outcome(2) [OF b a diff[symmetric] jb q' c'_def None fresh]
    have "getOrCreateConversation c st = (?st1, SuccessResponse (created c q) 200)"
      "getOrCreateConversation c' st = (?st1, SuccessResponse (created c q) 200)"
      by (simp_all add: same_doc)
    moreover have "lookupExact q ?st1 = Some (created c q)"
      using lookupExact_after_create [OF q_def None]
        refsExist_pairQuery [OF a(2) b(2) jb] by (simp add: q_def)
    moreover have "distinct (map conv_id (conversations st)) \<Longrightarrow>
        distinct (map conv_id (conversations ?st1))"
      using fresh by (simp add: created_def c_def resolveCall_def)
    ultimately show ?thesis using that [of ?st1 "created c q"] by simp
  qed
  have b1: "b \<in> set (userDocs st1)" and a1: "a \<in> set (userDocs st1)"
    using a b docs by simp_all
  have jb1: "jobOk st1 j = jobOk st j" for j
    by (simp add: jobOk_def docs cong: option.case_cong)
  have stable: "getOrCreateConversation (resolveCall A B J n2 t2) st1 = (st1, SuccessResponse conv 200)
             \<and> getOrCreateConversation (resolveCall B A J n2 t2) st1 = (st1, SuccessResponse conv 200)"
    for n2 t2
    using resolve_outcome(1) [OF a(1) a1 b(1) b1 diff _ q_def refl found]
      resolve_outcome(1) [OF b(1) b1 a(1) a1 diff[symmetric] _ q' refl found] jb jb1
    by simp
  have other: "\<exists>conv' st2.
                   getOrCreateConversation (resolveCall A B J' n2 t2) st1
                     = (st2, SuccessResponse conv' 200)
                 \<and> job conv = jobContext J \<and> job conv' = jobContext J'
                 \<and> conv_id conv' \<noteq> conv_id conv"
    if j': "jobOk st J'" and ctx: "jobContext J' \<noteq> jobContext J"
      and dist: "distinct (map conv_id (conversations st))"
      and fresh2: "n2 \<notin> set (map conv_id (conversations st1))"
    for J' n2 t2
  proof -
    define q2 where "q2 = pairQuery a b J'"
    define c2 where "c2 = resolveCall A B J' n2 t2"
    have j1: "jobOk st1 J'" using j' jb1 by simp
    have j0: "jobOk st1 J" using jb jb1 by simp
    from lookupExact_Some [OF found]
    obtain d where d: "d \<in> set (conversations st1)" "conv = populate st1 d"
      "job d = jobContext J"
      by (auto simp: q_def pairQuery_def)
    have conv: "job conv = jobContext J" "conv_id conv = conv_id d"
      using d job_populate_ok [OF j0 d(3)] by simp_all
    have d1: "distinct (map conv_id (conversations st1))" using ids dist by simp
    show ?thesis
    proof (cases "lookupExact q2 st1")
      case (Some conv')
      from lookupExact_Some [OF Some]
      obtain d' where d': "d' \<in> set (conversations st1)" "conv' = populate st1 d'"
        "job d' = jobContext J'"
        by (auto simp: q2_def pairQuery_def)
      have conv': "job conv' = jobContext J'" "conv_id conv' = conv_id d'"
        using d' job_populate_ok [OF j1 d'(3)] by simp_all
      have "d' \<noteq> d" using d(3) d'(3) ctx by auto
      then have "conv_id conv' \<noteq> conv_id conv"
        using distinct_ids_differ [OF d1 d'(1) d(1)] conv conv' by simp
      then show ?thesis
        using resolve_outcome(1) [OF a(1) a1 b(1) b1 diff j1 q2_def c2_def Some] conv conv'
        by (auto simp: c2_def)
    next
      case None
      have "conv_id (created c2 q2) = n2" by (simp add: created_def c2_def resolveCall_def)
      moreover have "conv_id conv \<in> set (map conv_id (conversations st1))"
        using d conv by simp
      ultimately have "conv_id (created c2 q2) \<noteq> conv_id conv" using fresh2 by auto
      moreover have "job (created c2 q2) = jobContext J'"
        by (simp add: created_def q2_def pairQuery_def)
      ultimately show ?thesis
        using resolve_outcome(2) [OF a(1) a1 b(1) b1 diff j1 q2_def c2_def None fresh2] conv
        by (auto simp: c2_def)
    qed
  qed
  from first swapped stable other show ?thesis
    unfolding c_def c'_def by blast
qed

lemma demo_first_resolve:
  "getOrCreateConversation (resolveCall demoA demoC [] (demoNewId 1) 5) demoStore
     = (demoStore\<lparr>conversations := [demoConv, demoNewConv 1 None 5]\<rparr>,
        SuccessResponse (demoNewConv 1 None 5) 200)"
  by code_simp

text \<open>
  The first user and the third on the sample store, in both orders, twice, and then
  about a job.
\<close>

theorem conversation_identity_witness:
  "getOrCreateConversation (resolveCall demoA demoC [] (demoNewId 1) 5) demoStore
     = (demoStore\<lparr>conversations := [demoConv, demoNewConv 1 None 5]\<rparr>,
        SuccessResponse (demoNewConv 1 None 5) 200)
   \<and> getOrCreateConversation (resolveCall demoC demoA [] (demoNewId 1) 5) demoStore
     = (demoStore\<lparr>conversations := [demoConv, demoNewConv 1 None 5]\<rparr>,
        SuccessResponse (demoNewConv 1 None 5) 200)
   \<and> getOrCreateConversation (resolveCall demoC demoA [] (demoNewId 2) 6)
        (demoStore\<lparr>conversations := [demoConv, demoNewConv 1 None 5]\<rparr>)
     = (demoStore\<lparr>conversations := [demoConv, demoNewConv 1 None 5]\<rparr>,
        SuccessResponse (demoNewConv 1 None 5) 200)
   \<and> (\<exists>conv' st2.
         getOrCreateConversation (resolveCall demoA demoC demoJob (demoNewId 2) 6)
           (demoStore\<lparr>conversations := [demoConv, demoNewConv 1 None 5]\<rparr>)
           = (st2, SuccessResponse conv' 200)
         \<and> job conv' = Some demoJob \<and> conv_id conv' \<noteq> demoNewId 1)"
proof -
  let ?st1 = "demoStore\<lparr>conversations := [demoConv, demoNewConv 1 None 5]\<rparr>"
  have docs: "demoA \<in> set (userDocs demoStore)" "demoC \<in> set (userDocs demoStore)"
    by (simp_all add: demoStore_def)
  have ne: "demoA \<noteq> demoC" by (simp add: demoA_def demoC_def)
  have jb: "jobOk demoStore []" "jobOk demoStore demoJob"
    by (simp_all add: jobOk_def demo_ids demoStore_def)
  have fresh: "demoNewId 1 \<notin> set (map conv_id (conversations demoStore))"
    by (simp add: demoStore_def demoConv_def demoNewId_def demoConvId_def)
  from conversation_identity [OF demo_ids(1) docs(1) demo_ids(3) docs(2) ne jb(1) fresh, of 5]
  obtain conv st1 where
    1: "getOrCreateConversation (resolveCall demoA demoC [] (demoNewId 1) 5) demoStore
          = (st1, SuccessResponse conv 200)"
    and 2: "getOrCreateConversation (resolveCall demoC demoA [] (demoNewId 1) 5) demoStore
          = (st1, SuccessResponse conv 200)"
    and 3: "\<And>n2 t2. getOrCreateConversation (resolveCall demoC demoA [] n2 t2) st1
          = (st1, SuccessResponse conv 200)"
    and 4: "\<And>J' n2 t2. jobOk demoStore J' \<Longrightarrow> jobContext J' \<noteq> jobContext [] \<Longrightarrow>
            distinct (map conv_id (conversations demoStore)) \<Longrightarrow>
            n2 \<notin> set (map conv_id (conversations st1)) \<Longrightarrow>
            \<exists>conv' st2. getOrCreateConversation (resolveCall demoA demoC J' n2 t2) st1
                     = (st2, SuccessResponse conv' 200)
                 \<and> job conv = jobContext [] \<and> job conv' = jobContext J'
                 \<and> conv_id conv' \<noteq> conv_id conv"
    by blast
  from 1 demo_first_resolve have st1: "st1 = ?st1" and conv: "conv = demoNewConv 1 None 5"
    by simp_all
  have ctx: "jobContext demoJob \<noteq> jobContext []" "jobContext demoJob = Some demoJob"
    using demo_ids(5) castObjectId_nonempty [OF demo_ids(5)] by (simp_all add: jobContext_def)
  have d: "distinct (map conv_id (conversations demoStore))" by (simp add: demoStore_def)
  have f2: "demoNewId 2 \<notin> set (map conv_id (conversations st1))"
    by (simp add: st1 demoStore_def demoConv_def demoNewConv_def demoNewId_def demoConvId_def)
  from 4 [OF jb(2) ctx(1) d f2, of 6]
  have 5: "\<exists>conv' st2.
         getOrCreateConversation (resolveCall demoA demoC demoJob (demoNewId 2) 6) ?st1
           = (st2, SuccessResponse conv' 200)
         \<and> job conv' = Some demoJob \<and> conv_id conv' \<noteq> demoNewId 1"
    unfolding st1 conv ctx(2) by (auto simp: demoNewConv_def)
  from 1 2 3 [of "demoNewId 2" 6] 5 show ?thesis unfolding st1 conv by (intro conjI)
qed

text \<open>
  Claim C1 fails on the code. Two calls of the first user for the third, with no job,
  are in flight together and take turns at every store operation: both look the
  conversation up twice and find nothing, then both insert. The schema declares no
  unique index, so both inserts succeed, and the store holds two conversations for
  the same pair and the same job context, one answered to each caller.
\<close>

theorem concurrent_creation_duplicates:
  "interleave demoSchedule demoRacers (demoStore, map start demoRacers)
     = (demoStore\<lparr>conversations := [demoConv, demoNewConv 1 None 5, demoNewConv 2 None 6]\<rparr>,
        [Done (SuccessResponse (demoNewConv 1 None 5) 200),
         Done (SuccessResponse (demoNewConv 2 None 6) 200)])
   \<and> users (demoNewConv 1 None 5) = users (demoNewConv 2 None 6)
   \<and> job (demoNewConv 1 None 5) = job (demoNewConv 2 None 6)
   \<and> conv_id (demoNewConv 1 None 5) \<noteq> conv_id (demoNewConv 2 None 6)"
  by code_simp

end
